theory Spec2Isabelle
  imports Complex_Main "HOL-Library.Stream"
begin

section \<open>The game-state engine of \<^verbatim>\<open>car_game_enhanced.py\<close>\<close>

text \<open>
  The development embeds the simulation part of \<^verbatim>\<open>main\<close> (one pass through the body of
  the \<^verbatim>\<open>while running\<close> loop), together with the helpers it calls.

  Conventions of the embedding:
  \<^item> the dictionary \<^verbatim>\<open>s\<close> is the record \<open>session\<close>; the key \<^verbatim>\<open>cam_frame\<close> holds the
    image shown in the camera preview, is read by drawing code only, and is left out;
  \<^item> Python \<^verbatim>\<open>int\<close> is \<open>int\<close>; a Python \<^verbatim>\<open>float\<close> is the \<open>real\<close> it denotes. The
    interpolation of the car position rounds to double precision as the program does
    (\<open>round_double\<close>). The positions of the enemies and the speed are multiples of 1/2 of
    small magnitude, on which double arithmetic is exact, so their arithmetic is written
    without rounding; so is the arithmetic of the scroll offset, on which no statement
    below depends. The arithmetic of the particles rounds, with \<^verbatim>\<open>math.cos\<close> and
    \<^verbatim>\<open>math.sin\<close> taken as correctly rounded;
  \<^item> the module \<^verbatim>\<open>random\<close> is a stream of raw draws, one element consumed per library
    call, threaded through the functions in the order of the calls;
  \<^item> what the camera and the hand detector deliver in one pass is the input \<open>cam_in\<close>;
  \<^item> drawing calls have no effect on the state and are left out.
\<close>

subsection \<open>Layout constants\<close>

definition WIN_W :: int where "WIN_W = 800"
definition WIN_H :: int where "WIN_H = 600"
definition ROAD_L :: int where "ROAD_L = 80"
definition ROAD_R :: int where "ROAD_R = 720"
definition ROAD_W :: int where "ROAD_W = ROAD_R - ROAD_L"
definition LANE_COUNT :: int where "LANE_COUNT = 3"
definition LANE_W :: int where "LANE_W = ROAD_W div LANE_COUNT"
definition LANE_X :: "int list" where
  "LANE_X = map (\<lambda>i. ROAD_L + LANE_W * i + LANE_W div 2) [0..<3]"
definition CAR_W :: int where "CAR_W = 52"
definition CAR_H :: int where "CAR_H = 84"
definition ENEMY_W :: int where "ENEMY_W = 52"
definition ENEMY_H :: int where "ENEMY_H = 84"
definition FPS :: int where "FPS = 60"
definition DASH_LEN :: int where "DASH_LEN = 40"
definition DASH_GAP :: int where "DASH_GAP = 30"
definition MAX_ENEMIES :: int where "MAX_ENEMIES = 12"
definition MAX_SPEED :: real where "MAX_SPEED = 18"
definition CAM_SKIP :: int where "CAM_SKIP = 2"

type_synonym rgb = "int \<times> int \<times> int"
type_synonym palette = "rgb \<times> rgb"

definition ENEMY_PALETTES :: "palette list" where
  "ENEMY_PALETTES =
     [((220, 50, 50), (140, 20, 20)),
      ((255, 140, 0), (180, 80, 0)),
      ((160, 50, 220), (100, 20, 150)),
      ((50, 200, 100), (20, 130, 50)),
      ((200, 200, 50), (130, 130, 10))]"

subsection \<open>Library functions the program calls\<close>

text \<open>\<^verbatim>\<open>int(v)\<close> on a float truncates toward zero.\<close>

definition py_int :: "real \<Rightarrow> int" where
  "py_int v = (if 0 \<le> v then \<lfloor>v\<rfloor> else \<lceil>v\<rceil>)"

text \<open>\<^verbatim>\<open>a % m\<close> on floats, for a positive \<^verbatim>\<open>m\<close>: the result lies in \<open>[0, m)\<close>.\<close>

definition py_fmod :: "real \<Rightarrow> real \<Rightarrow> real" where
  "py_fmod a m = a - m * of_int \<lfloor>a / m\<rfloor>"

text \<open>
  Arithmetic on floats. A Python \<^verbatim>\<open>float\<close> is an IEEE-754 double: the result of an operation
  is the exact result rounded to the nearest number with a significand of 53 bits, ties to
  the even significand. \<open>round_double\<close> is that rounding, for the normal range (the
  exponent is not bounded; the values of the game are far from overflow and underflow).
  \<open>expo v\<close> is the exponent of \<open>v\<close>, that is \<open>\<lfloor>log\<^sub>2 \<bar>v\<bar>\<rfloor>\<close>, computed from the number of
  bits of the integer part of \<open>\<bar>v\<bar>\<close> or of \<open>1 / \<bar>v\<bar>\<close>.
\<close>

fun bit_length :: "nat \<Rightarrow> nat" where
  "bit_length n = (if n = 0 then 0 else Suc (bit_length (n div 2)))"

declare bit_length.simps [simp del]

definition expo :: "real \<Rightarrow> int" where
  "expo v =
     (if 1 \<le> \<bar>v\<bar> then int (bit_length (nat \<lfloor>\<bar>v\<bar>\<rfloor>)) - 1
      else - int (bit_length (nat (\<lceil>1 / \<bar>v\<bar>\<rceil> - 1))))"

definition round_half_even :: "real \<Rightarrow> int" where
  "round_half_even y =
     (let f = \<lfloor>y\<rfloor>; r = y - of_int f
      in if r < 1 / 2 then f else if 1 / 2 < r then f + 1 else if even f then f else f + 1)"

text \<open>Rounding to a significand of \<open>p + 1\<close> bits.\<close>

definition round_to :: "nat \<Rightarrow> real \<Rightarrow> real" where
  "round_to p v =
     (if v = 0 then 0
      else of_int (round_half_even (v / 2 powi (expo v - int p))) * 2 powi (expo v - int p))"

definition round_double :: "real \<Rightarrow> real" where
  "round_double v = round_to 52 v"

definition is_double :: "real \<Rightarrow> bool" where
  "is_double v \<longleftrightarrow> round_double v = v"

text \<open>
  The module \<^verbatim>\<open>random\<close>. Each call consumes one raw draw. \<^verbatim>\<open>randint(a, b)\<close> returns
  an integer of \<open>[a, b]\<close>, \<^verbatim>\<open>choice(xs)\<close> an element of \<open>xs\<close>, and \<^verbatim>\<open>uniform(a, b)\<close> is
  \<^verbatim>\<open>a + (b - a) * random()\<close> with \<^verbatim>\<open>random()\<close> a multiple of \<open>2\<^sup>-\<^sup>5\<^sup>3\<close> in \<open>[0, 1)\<close>. Every
  outcome of the library call is the model's value at some raw draw, and the outcomes of
  \<^verbatim>\<open>randint(a, b)\<close> are equally frequent among the raw draws below any multiple of
  \<open>b - a + 1\<close>: raw draws that are uniform give uniform outcomes.
\<close>

definition randint :: "int \<Rightarrow> int \<Rightarrow> nat stream \<Rightarrow> int \<times> nat stream" where
  "randint a b g = (a + int (shd g mod nat (b - a + 1)), stl g)"

definition choice :: "'a list \<Rightarrow> nat stream \<Rightarrow> 'a \<times> nat stream" where
  "choice xs g = (xs ! (shd g mod length xs), stl g)"

definition uniform :: "real \<Rightarrow> real \<Rightarrow> nat stream \<Rightarrow> real \<times> nat stream" where
  "uniform a b g =
     (round_double (a + round_double (round_double (b - a) * (real (shd g mod 2 ^ 53) / 2 ^ 53))),
      stl g)"

text \<open>\<^verbatim>\<open>math.tau\<close> is the double nearest to \<open>2\<pi>\<close>.\<close>

definition math_tau :: real where
  "math_tau = round_double (2 * pi)"

text \<open>
  \<^verbatim>\<open>pygame.Rect(left, top, width, height)\<close> and \<^verbatim>\<open>Rect.colliderect\<close>: two rectangles
  collide when they overlap on both axes; a rectangle of zero width or height collides
  with nothing, and touching edges do not overlap.
\<close>

record rect =
  r_left :: int
  r_top :: int
  r_width :: int
  r_height :: int

definition Rect :: "int \<Rightarrow> int \<Rightarrow> int \<Rightarrow> int \<Rightarrow> rect" where
  "Rect l t w h = \<lparr>r_left = l, r_top = t, r_width = w, r_height = h\<rparr>"

definition colliderect :: "rect \<Rightarrow> rect \<Rightarrow> bool" where
  "colliderect A B =
     (if r_width A = 0 \<or> r_height A = 0 \<or> r_width B = 0 \<or> r_height B = 0 then False
      else min (r_left A) (r_left A + r_width A) < max (r_left B) (r_left B + r_width B)
         \<and> min (r_top A) (r_top A + r_height A) < max (r_top B) (r_top B + r_height B)
         \<and> max (r_left A) (r_left A + r_width A) > min (r_left B) (r_left B + r_width B)
         \<and> max (r_top A) (r_top A + r_height A) > min (r_top B) (r_top B + r_height B))"

subsection \<open>Helpers\<close>

text \<open>
  \<^verbatim>\<open>lerp\<close> computes \<^verbatim>\<open>a + (b - a) * t\<close> in three float operations, each of which rounds.
\<close>

definition lerp :: "real \<Rightarrow> real \<Rightarrow> real \<Rightarrow> real" where
  "lerp a b t = round_double (a + round_double (round_double (b - a) * t))"

definition hand_lane :: "int option \<Rightarrow> int \<Rightarrow> nat" where
  "hand_lane hx frame_w =
     (case hx of
        None \<Rightarrow> 1
      | Some h \<Rightarrow>
          (let thirds = real_of_int frame_w / 3
           in if real_of_int h < thirds then 0
              else if real_of_int h < 2 * thirds then 1
              else 2))"

subsection \<open>Particle system\<close>

record particle =
  p_x :: real
  p_y :: real
  p_vx :: real
  p_vy :: real
  p_life :: int
  p_max_life :: int
  p_color :: rgb
  p_size :: int

text \<open>\<^verbatim>\<open>Particle.__init__\<close>: four draws, in the order angle, speed, life, size.\<close>

definition Particle_init :: "real \<Rightarrow> real \<Rightarrow> rgb \<Rightarrow> nat stream \<Rightarrow> particle \<times> nat stream" where
  "Particle_init x y c g0 =
     (case uniform 0 math_tau g0 of (angle, g1) \<Rightarrow>
      case uniform 2 9 g1 of (speed, g2) \<Rightarrow>
      case randint 25 50 g2 of (l, g3) \<Rightarrow>
      case randint 3 8 g3 of (sz, g4) \<Rightarrow>
        (\<lparr>p_x = x, p_y = y,
          p_vx = round_double (round_double (cos angle) * speed),
          p_vy = round_double (round_double (sin angle) * speed),
          p_life = l, p_max_life = l, p_color = c, p_size = sz\<rparr>, g4))"

definition Particle_update :: "particle \<Rightarrow> particle" where
  "Particle_update p =
     p\<lparr>p_x := round_double (p_x p + p_vx p), p_y := round_double (p_y p + p_vy p),
       p_vy := round_double (p_vy p + 0.25), p_life := p_life p - 1\<rparr>"

text \<open>\<^verbatim>\<open>explode\<close>: the loop \<^verbatim>\<open>for _ in range(40)\<close>, with the number of rounds left.\<close>

fun explode_loop ::
  "nat \<Rightarrow> particle list \<Rightarrow> int \<Rightarrow> int \<Rightarrow> palette \<Rightarrow> nat stream \<Rightarrow> particle list \<times> nat stream"
where
  "explode_loop 0 ps x y pal g = (ps, g)"
| "explode_loop (Suc n) ps x y pal g =
     (case choice [fst pal, snd pal, (255, 255, 200), (255, 180, 0)] g of (c, g1) \<Rightarrow>
      case Particle_init (of_int x) (of_int y) c g1 of (p, g2) \<Rightarrow>
        explode_loop n (ps @ [p]) x y pal g2)"

definition explode ::
  "particle list \<Rightarrow> int \<Rightarrow> int \<Rightarrow> palette \<Rightarrow> nat stream \<Rightarrow> particle list \<times> nat stream"
where
  "explode ps x y pal g = explode_loop 40 ps x y pal g"

text \<open>The section \<^verbatim>\<open># Particles\<close> of the loop body: update every particle, keep the live ones.\<close>

definition particles_step :: "particle list \<Rightarrow> particle list" where
  "particles_step ps = filter (\<lambda>p. p_life p > 0) (map Particle_update ps)"

subsection \<open>Game state\<close>

record enemy =
  e_cx :: int
  e_y :: real
  e_pal :: palette

record session =
  car_lane :: nat
  car_x_px :: real
  car_y :: int
  score :: int
  lives :: int
  enemies :: "enemy list"
  enemy_spd :: real
  spawn_cd :: int
  game_over :: bool
  go_timer :: int
  tick :: int
  dash_off :: real
  hand_x :: "int option"
  particles :: "particle list"

definition reset_state :: session where
  "reset_state =
     \<lparr>car_lane = 1,
      car_x_px = real_of_int (LANE_X ! 1 - CAR_W div 2),
      car_y = WIN_H - CAR_H - 24,
      score = 0,
      lives = 3,
      enemies = [],
      enemy_spd = 5,
      spawn_cd = 70,
      game_over = False,
      go_timer = 0,
      tick = 0,
      dash_off = 0,
      hand_x = None,
      particles = []\<rparr>"

subsection \<open>The game logic of one pass\<close>

text \<open>The section \<^verbatim>\<open># Spawn enemies\<close>: three draws (lane, palette, jitter) when it spawns.\<close>

definition spawn_enemies :: "session \<times> nat stream \<Rightarrow> session \<times> nat stream" where
  "spawn_enemies sg =
     (case sg of (s, g) \<Rightarrow>
        let s1 = s\<lparr>spawn_cd := spawn_cd s - 1\<rparr>;
            base_interval = max 25 (70 - score s1 div 5)
        in if spawn_cd s1 \<le> 0 \<and> int (length (enemies s1)) < MAX_ENEMIES then
             (case randint 0 (LANE_COUNT - 1) g of (lane, g1) \<Rightarrow>
              case choice ENEMY_PALETTES g1 of (pal, g2) \<Rightarrow>
              case randint (- 8) 8 g2 of (jit, g3) \<Rightarrow>
                (s1\<lparr>enemies := enemies s1 @
                       [\<lparr>e_cx = LANE_X ! nat lane, e_y = - real_of_int ENEMY_H, e_pal = pal\<rparr>],
                    spawn_cd := base_interval + jit\<rparr>, g3))
           else (s1, g))"

text \<open>
  The body of the loop \<^verbatim>\<open>for i, (cx, ey, pal) in enumerate(s['enemies'])\<close> for one enemy.
  It returns the enemy with its new \<^verbatim>\<open>ey\<close>, whether its index was appended to
  \<^verbatim>\<open>to_remove\<close>, and the state.
\<close>

definition enemy_body ::
  "rect \<Rightarrow> enemy \<Rightarrow> session \<times> nat stream \<Rightarrow> (enemy \<times> bool) \<times> session \<times> nat stream"
where
  "enemy_body car_rect e sg =
     (case sg of (s, g) \<Rightarrow>
        let ey = e_y e + enemy_spd s;
            e' = e\<lparr>e_y := ey\<rparr>;
            erect = Rect (e_cx e - ENEMY_W div 2) (py_int ey) ENEMY_W ENEMY_H
        in if colliderect car_rect erect then
             (case explode (particles s) (e_cx e) (py_int (ey + real_of_int (ENEMY_H div 2)))
                     (e_pal e) g of (ps, g') \<Rightarrow>
                let s1 = s\<lparr>particles := ps, lives := lives s - 1\<rparr>;
                    s2 = (if lives s1 \<le> 0
                          then s1\<lparr>game_over := True, go_timer := FPS * 2\<rparr> else s1)
                in ((e', True), s2, g'))
           else if ey > real_of_int WIN_H then
             (let s1 = s\<lparr>score := score s + 1\<rparr>;
                  s2 = (if score s1 mod 8 = 0
                        then s1\<lparr>enemy_spd := min MAX_SPEED (enemy_spd s1 + 0.5)\<rparr> else s1)
              in ((e', True), s2, g))
           else ((e', False), s, g))"

text \<open>
  The section \<^verbatim>\<open># Update enemies\<close>: the loop over the enemies, followed by the deletion of
  the indices in \<^verbatim>\<open>to_remove\<close>. The function returns the enemies that are not deleted,
  in their order, and the state after the last round.
\<close>

fun update_enemies ::
  "rect \<Rightarrow> enemy list \<Rightarrow> session \<times> nat stream \<Rightarrow> enemy list \<times> session \<times> nat stream"
where
  "update_enemies car_rect [] sg = ([], sg)"
| "update_enemies car_rect (e # es) sg =
     (case enemy_body car_rect e sg of ((e', rm), sg1) \<Rightarrow>
      case update_enemies car_rect es sg1 of (kept, sg2) \<Rightarrow>
        (if rm then kept else e' # kept, sg2))"

text \<open>The branch \<^verbatim>\<open>if not s['game_over']\<close>; \<open>w\<close> is the frame width of \<^verbatim>\<open>main\<close>.\<close>

definition playing :: "int \<Rightarrow> session \<times> nat stream \<Rightarrow> session \<times> nat stream" where
  "playing w sg =
     (case sg of (s, g) \<Rightarrow>
        let target_lane = hand_lane (hand_x s) w;
            target_x = real_of_int (LANE_X ! target_lane - CAR_W div 2);
            sa = s\<lparr>car_lane := target_lane, car_x_px := lerp (car_x_px s) target_x 0.25\<rparr>;
            car_rect = Rect (py_int (car_x_px sa)) (car_y sa) CAR_W CAR_H
        in case spawn_enemies (sa, g) of (sb, gb) \<Rightarrow>
           case update_enemies car_rect (enemies sb) (sb, gb) of (kept, sc, gc) \<Rightarrow>
             (sc\<lparr>enemies := kept\<rparr>, gc))"

text \<open>The branch \<^verbatim>\<open>else\<close> (game over): the restart cooldown and the restart.\<close>

definition game_over_screen :: "session \<Rightarrow> session" where
  "game_over_screen s =
     (if go_timer s > 0 then s\<lparr>go_timer := go_timer s - 1\<rparr>
      else if hand_x s \<noteq> None then reset_state
      else s)"

subsection \<open>One pass through the main loop\<close>

text \<open>
  What one pass reads from the camera: \<^verbatim>\<open>ret2\<close> of \<^verbatim>\<open>cap.read()\<close>, the width of the
  frame, and the value \<^verbatim>\<open>int(lm.x * w)\<close> when the detector reports a hand.
\<close>

record cam_in =
  ret2 :: bool
  shape_w :: int
  hand :: "int option"

text \<open>The variables of \<^verbatim>\<open>main\<close> that live across passes, and the state of \<^verbatim>\<open>random\<close>.\<close>

record game =
  sess :: session
  cam_tick :: int
  frame_w :: int
  rng :: "nat stream"

definition initial :: "int \<Rightarrow> nat stream \<Rightarrow> game" where
  "initial w g = \<lparr>sess = reset_state, cam_tick = 0, frame_w = w, rng = g\<rparr>"

definition step :: "cam_in \<Rightarrow> game \<Rightarrow> game" where
  "step inp m =
     (let s0 = (sess m)\<lparr>tick := tick (sess m) + 1\<rparr>;
          ct = cam_tick m + 1;
          processed = (ct mod CAM_SKIP = 0 \<and> ret2 inp);
          w = (if processed then shape_w inp else frame_w m);
          s1 = (if processed then s0\<lparr>hand_x := hand inp\<rparr> else s0);
          s2 = s1\<lparr>dash_off :=
                    py_fmod (dash_off s1 + enemy_spd s1 * 0.6) (real_of_int (DASH_LEN + DASH_GAP))\<rparr>
      in case (if \<not> game_over s2 then playing w (s2, rng m)
               else (game_over_screen s2, rng m)) of (s3, g3) \<Rightarrow>
           \<lparr>sess = s3\<lparr>particles := particles_step (particles s3)\<rparr>,
            cam_tick = ct, frame_w = w, rng = g3\<rparr>)"

text \<open>
  The part of a pass that precedes the loop over the enemies while the game runs: the
  camera, the scroll offset, the car and the spawn. \<open>before_loop\<close> returns the rectangle of
  the car and the state in which the loop starts.
\<close>

definition before_loop :: "cam_in \<Rightarrow> game \<Rightarrow> rect \<times> session \<times> nat stream" where
  "before_loop inp m =
     (let s0 = (sess m)\<lparr>tick := tick (sess m) + 1\<rparr>;
          ct = cam_tick m + 1;
          processed = (ct mod CAM_SKIP = 0 \<and> ret2 inp);
          w = (if processed then shape_w inp else frame_w m);
          s1 = (if processed then s0\<lparr>hand_x := hand inp\<rparr> else s0);
          s2 = s1\<lparr>dash_off :=
                    py_fmod (dash_off s1 + enemy_spd s1 * 0.6) (real_of_int (DASH_LEN + DASH_GAP))\<rparr>;
          target_lane = hand_lane (hand_x s2) w;
          target_x = real_of_int (LANE_X ! target_lane - CAR_W div 2);
          sa = s2\<lparr>car_lane := target_lane, car_x_px := lerp (car_x_px s2) target_x 0.25\<rparr>
      in (Rect (py_int (car_x_px sa)) (car_y sa) CAR_W CAR_H, spawn_enemies (sa, rng m)))"

text \<open>The states the program can be in after any number of passes.\<close>

inductive reachable :: "game \<Rightarrow> bool" where
  reachable_initial: "reachable (initial w g)"
| reachable_step: "reachable m \<Longrightarrow> reachable (step inp m)"

subsection \<open>Predicates used in the statements\<close>

text \<open>
  The two tests of the loop body, for an enemy \<open>e\<close> in the state \<open>s\<close>: its rectangle at the
  new \<^verbatim>\<open>ey\<close> collides with the car, and its new \<^verbatim>\<open>ey\<close> is below the window.
\<close>

definition hits :: "rect \<Rightarrow> enemy \<Rightarrow> session \<Rightarrow> bool" where
  "hits car_rect e s \<longleftrightarrow>
     colliderect car_rect
       (Rect (e_cx e - ENEMY_W div 2) (py_int (e_y e + enemy_spd s)) ENEMY_W ENEMY_H)"

definition leaves :: "enemy \<Rightarrow> session \<Rightarrow> bool" where
  "leaves e s \<longleftrightarrow> e_y e + enemy_spd s > real_of_int WIN_H"

definition moved :: "enemy \<Rightarrow> real \<Rightarrow> enemy" where
  "moved e v = e\<lparr>e_y := e_y e + v\<rparr>"

text \<open>The guard of the spawn, on the state before the countdown is decremented.\<close>

definition spawns :: "session \<Rightarrow> bool" where
  "spawns s \<longleftrightarrow> spawn_cd s - 1 \<le> 0 \<and> int (length (enemies s)) < MAX_ENEMIES"

text \<open>
  The hand position and the frame width that the game logic of a pass sees: those the
  camera delivers in this pass when the frame is processed, the stored ones otherwise.
\<close>

definition seen_hand :: "cam_in \<Rightarrow> game \<Rightarrow> int option" where
  "seen_hand inp m =
     (if (cam_tick m + 1) mod CAM_SKIP = 0 \<and> ret2 inp then hand inp else hand_x (sess m))"

definition seen_width :: "cam_in \<Rightarrow> game \<Rightarrow> int" where
  "seen_width inp m =
     (if (cam_tick m + 1) mod CAM_SKIP = 0 \<and> ret2 inp then shape_w inp else frame_w m)"

definition target_x :: "cam_in \<Rightarrow> game \<Rightarrow> real" where
  "target_x inp m =
     real_of_int (LANE_X ! hand_lane (seen_hand inp m) (seen_width inp m) - CAR_W div 2)"

text \<open>The pass restarts the game: the last branch of the game-over screen is taken.\<close>

definition restarts :: "cam_in \<Rightarrow> game \<Rightarrow> bool" where
  "restarts inp m \<longleftrightarrow> game_over (sess m) \<and> go_timer (sess m) \<le> 0 \<and> seen_hand inp m \<noteq> None"

text \<open>A particle as \<^verbatim>\<open>explode\<close> creates it at the point \<open>(x, y)\<close>, and one that has been
  updated at least once and is still alive.\<close>

definition fresh :: "int \<Rightarrow> int \<Rightarrow> particle \<Rightarrow> bool" where
  "fresh x y p \<longleftrightarrow> p_x p = of_int x \<and> p_y p = of_int y \<and> p_life p = p_max_life p \<and> 25 \<le> p_life p \<and> p_life p \<le> 50"

definition in_flight :: "particle \<Rightarrow> bool" where
  "in_flight p \<longleftrightarrow> 0 < p_life p \<and> p_life p < p_max_life p \<and> p_max_life p \<le> 50"

text \<open>
  Enemies in the order of the list (oldest first) are at least 187 pixels apart: an older
  enemy is further down the road than a younger one.
\<close>

definition apart :: "enemy \<Rightarrow> enemy \<Rightarrow> bool" where
  "apart a b \<longleftrightarrow> e_y b + 187 \<le> e_y a"

definition spaced :: "enemy list \<Rightarrow> bool" where
  "spaced es \<longleftrightarrow> sorted_wrt apart es"

text \<open>
  The invariant of the session: the car is on its row, the speed is the one the score
  gives, the enemies are spaced, every enemy is so far down that the next one, spawned when
  the countdown runs out, will be 187 pixels behind it, and the game is over exactly when
  no life is left.
\<close>

definition session_inv :: "session \<Rightarrow> bool" where
  "session_inv s \<longleftrightarrow>
      car_y s = WIN_H - CAR_H - 24
    \<and> 0 \<le> score s
    \<and> enemy_spd s = min MAX_SPEED (5 + real_of_int (score s div 8) / 2)
    \<and> spaced (enemies s)
    \<and> (\<forall>e\<in>set (enemies s).
          187 \<le> e_y e + 84 + real_of_int (max (spawn_cd s - 1) 0) * enemy_spd s)
    \<and> (if game_over s then lives s = 0 else 1 \<le> lives s \<and> lives s \<le> 3)"

subsection \<open>Example states\<close>

definition ex_enemy :: enemy where
  "ex_enemy = \<lparr>e_cx = 399, e_y = 596, e_pal = ((220, 50, 50), (140, 20, 20))\<rparr>"

definition ex_particle :: particle where
  "ex_particle = \<lparr>p_x = 0, p_y = 0, p_vx = 1, p_vy = 1, p_life = 30, p_max_life = 30,
                  p_color = (255, 180, 0), p_size = 3\<rparr>"

definition ex_cam :: cam_in where
  "ex_cam = \<lparr>ret2 = True, shape_w = 640, hand = Some 100\<rparr>"

text \<open>The game is over, with \<open>t\<close> passes of cooldown left.\<close>

definition ex_over :: "int \<Rightarrow> game" where
  "ex_over t =
     \<lparr>sess = reset_state\<lparr>score := 8, lives := 0, enemies := [ex_enemy], enemy_spd := 11 / 2,
                          game_over := True, go_timer := t\<rparr>,
      cam_tick = 1, frame_w = 640, rng = sconst 0\<rparr>"

text \<open>The game runs at score 7, and at score 215 with the speed at the cap; in both an
  enemy is about to leave the window.\<close>

definition ex_cross :: game where
  "ex_cross =
     \<lparr>sess = reset_state\<lparr>score := 7, spawn_cd := 9,
                          enemies := [\<lparr>e_cx = 399, e_y = 596, e_pal = ((220, 50, 50), (140, 20, 20))\<rparr>]\<rparr>,
      cam_tick = 1, frame_w = 640, rng = sconst 0\<rparr>"

definition ex_play :: game where
  "ex_play =
     \<lparr>sess = reset_state\<lparr>score := 215, enemy_spd := 18, spawn_cd := 9,
                          enemies := [\<lparr>e_cx = 399, e_y = 590, e_pal = ((220, 50, 50), (140, 20, 20))\<rparr>]\<rparr>,
      cam_tick = 1, frame_w = 640, rng = sconst 0\<rparr>"

text \<open>The game runs, the hand is in lane 0, and the car is one step of \<open>2\<^sup>-\<^sup>4\<^sup>4\<close> right of the
  target: the position it reaches from the start after 124 passes toward lane 0.\<close>

definition ex_stall :: game where
  "ex_stall =
     \<lparr>sess = reset_state\<lparr>car_lane := 0, car_x_px := 160 + 1 / 2 ^ 44, hand_x := Some 100\<rparr>,
      cam_tick = 1, frame_w = 640, rng = sconst 0\<rparr>"

text \<open>
  The car row is 58 pixels lower than in the game (a state no game reaches): the enemy is
  below the window and still overlaps the car.
\<close>

definition ex_low :: game where
  "ex_low =
     \<lparr>sess = reset_state\<lparr>car_y := 550, spawn_cd := 9, enemies := [ex_enemy]\<rparr>,
      cam_tick = 0, frame_w = 640, rng = sconst 0\<rparr>"

text \<open>The raw draws 0, 1, 2, \<open>\<dots>\<close>\<close>

definition ex_draws :: "nat stream" where
  "ex_draws = siterate Suc 0"

text \<open>
  A run of the game in which the camera sees no hand and every raw draw is 1: the car
  stays in lane 1, every enemy comes down lane 1, 63 passes after the one before, and
  hits the car. \<open>ex_run n\<close> is the state after \<open>n\<close> passes. \<open>ex_state m l c ys ps\<close> describes a
  state of this run: \<open>l\<close> lives, the spawn countdown \<open>c\<close>, enemies at the heights \<open>ys\<close>, and
  the particles \<open>ps\<close>.
\<close>

definition ex_idle :: cam_in where
  "ex_idle = \<lparr>ret2 = True, shape_w = 640, hand = None\<rparr>"

definition ex_run :: "nat \<Rightarrow> game" where
  "ex_run n = (step ex_idle ^^ n) (initial 640 (sconst 1))"

definition ex_lane1 :: "real \<Rightarrow> enemy" where
  "ex_lane1 y = \<lparr>e_cx = 399, e_y = y, e_pal = ((255, 140, 0), (180, 80, 0))\<rparr>"

definition ex_state :: "game \<Rightarrow> int \<Rightarrow> int \<Rightarrow> real list \<Rightarrow> particle list \<Rightarrow> bool" where
  "ex_state m l c ys ps \<longleftrightarrow>
      rng m = sconst 1 \<and> frame_w m = 640
    \<and> hand_x (sess m) = None \<and> car_x_px (sess m) = 373 \<and> car_y (sess m) = 492
    \<and> score (sess m) = 0 \<and> enemy_spd (sess m) = 5
    \<and> lives (sess m) = l \<and> game_over (sess m) = (l \<le> 0)
    \<and> spawn_cd (sess m) = c \<and> enemies (sess m) = map ex_lane1 ys
    \<and> particles (sess m) = ps"

section \<open>Properties\<close>

lemmas layout_defs =
  WIN_W_def WIN_H_def ROAD_L_def ROAD_R_def ROAD_W_def LANE_COUNT_def LANE_W_def
  CAR_W_def CAR_H_def ENEMY_W_def ENEMY_H_def FPS_def DASH_LEN_def DASH_GAP_def
  MAX_ENEMIES_def MAX_SPEED_def CAM_SKIP_def

lemma LANE_X_eval: "LANE_X = [186, 399, 612]"
  by (simp add: LANE_X_def layout_defs upt_rec)

subsection \<open>Rounding to double precision\<close>

lemma bit_length_pos: "0 < n \<Longrightarrow> bit_length n = Suc (bit_length (n div 2))"
  by (subst bit_length.simps) simp

lemma bit_length_bounds:
  "0 < n \<Longrightarrow> 2 ^ (bit_length n - 1) \<le> n \<and> n < 2 ^ bit_length n"
proof (induction n rule: bit_length.induct)
  case (1 n)
  note bl = bit_length_pos[OF "1.prems"]
  show ?case
  proof (cases "n div 2 = 0")
    case True
    then have "bit_length (n div 2) = 0" by (simp add: bit_length.simps)
    moreover from True "1.prems" have "n = 1" by (simp add: div_eq_0_iff)
    ultimately show ?thesis using bl by simp
  next
    case False
    then have p: "0 < n div 2" by simp
    from "1.IH"[OF _ p] "1.prems"
    have ih: "2 ^ (bit_length (n div 2) - 1) \<le> n div 2" "n div 2 < 2 ^ bit_length (n div 2)"
      by simp_all
    obtain j where j: "bit_length (n div 2) = Suc j" using bit_length_pos[OF p] by simp
    have "2 ^ (bit_length n - 1) = 2 * (2::nat) ^ (bit_length (n div 2) - 1)"
      by (simp add: bl j)
    also have "\<dots> \<le> 2 * (n div 2)" using ih(1) by simp
    also have "\<dots> \<le> n" by simp
    finally have lo: "2 ^ (bit_length n - 1) \<le> n" .
    have "n < 2 * (n div 2 + 1)" by presburger
    also have "\<dots> \<le> 2 * 2 ^ bit_length (n div 2)" using ih(2) by simp
    also have "\<dots> = 2 ^ bit_length n" by (simp add: bl)
    finally show ?thesis using lo by simp
  qed
qed

lemma real_pow2_le: "(2::nat) ^ a \<le> n \<Longrightarrow> (2::real) ^ a \<le> real n"
proof -
  assume "(2::nat) ^ a \<le> n"
  then have "real (2 ^ a) \<le> real n" by (rule of_nat_mono)
  then show ?thesis by simp
qed

lemma real_less_pow2: "n < (2::nat) ^ a \<Longrightarrow> real n + 1 \<le> (2::real) ^ a"
proof -
  assume "n < (2::nat) ^ a"
  then have "Suc n \<le> 2 ^ a" by simp
  then have "real (Suc n) \<le> real (2 ^ a)" by (rule of_nat_mono)
  then show ?thesis by simp
qed

lemma expo_bounds:
  assumes "v \<noteq> 0"
  shows "2 powi expo v \<le> \<bar>v\<bar> \<and> \<bar>v\<bar> < 2 powi (expo v + 1)"
proof (cases "1 \<le> \<bar>v\<bar>")
  case True
  define n where "n = nat \<lfloor>\<bar>v\<bar>\<rfloor>"
  have n0: "0 < n" using True by (simp add: n_def)
  have nv: "real n \<le> \<bar>v\<bar>" "\<bar>v\<bar> < real n + 1" unfolding n_def by linarith+
  from bit_length_bounds[OF n0] have b: "2 ^ (bit_length n - 1) \<le> n" "n < 2 ^ bit_length n"
    by simp_all
  have L: "0 < bit_length n" using bit_length_pos[OF n0] by simp
  have e: "expo v = int (bit_length n - 1)" "expo v + 1 = int (bit_length n)"
    using True L by (simp_all add: expo_def n_def)
  have p: "(2::real) powi expo v = 2 ^ (bit_length n - 1)" "(2::real) powi (expo v + 1) = 2 ^ bit_length n"
    by (subst e(1), rule power_int_of_nat) (subst e(2), rule power_int_of_nat)
  from real_pow2_le[OF b(1)] real_less_pow2[OF b(2)] nv show ?thesis
    unfolding p by linarith
next
  case False
  define y where "y = 1 / \<bar>v\<bar>"
  have v0: "0 < \<bar>v\<bar>" using assms by simp
  have y1: "1 < y" using False v0 by (simp add: y_def)
  define n where "n = nat (\<lceil>y\<rceil> - 1)"
  have c2: "2 \<le> \<lceil>y\<rceil>" using y1 by linarith
  have n0: "0 < n" using c2 by (simp add: n_def)
  have ny: "real n < y" "y \<le> real n + 1" unfolding n_def using c2 by linarith+
  from bit_length_bounds[OF n0] have b: "2 ^ (bit_length n - 1) \<le> n" "n < 2 ^ bit_length n"
    by simp_all
  have L: "0 < bit_length n" using bit_length_pos[OF n0] by simp
  have e: "expo v = - int (bit_length n)" "expo v + 1 = - int (bit_length n - 1)"
    using False L by (simp_all add: expo_def n_def y_def)
  have p: "(2::real) powi expo v = 1 / 2 ^ bit_length n"
    "(2::real) powi (expo v + 1) = 1 / 2 ^ (bit_length n - 1)"
    by (subst e(1), simp only: power_int_minus_divide power_int_of_nat)
       (subst e(2), simp only: power_int_minus_divide power_int_of_nat)
  have hi: "y \<le> 2 ^ bit_length n" using real_less_pow2[OF b(2)] ny(2) by linarith
  have lo: "2 ^ (bit_length n - 1) < y" using real_pow2_le[OF b(1)] ny(1) by linarith
  have v: "\<bar>v\<bar> = 1 / y" using v0 by (simp add: y_def)
  have y0: "0 < y" using y1 by simp
  have "1 / 2 ^ bit_length n \<le> 1 / y"
    using hi y0 by (intro divide_left_mono) simp_all
  moreover have "1 / y < 1 / 2 ^ (bit_length n - 1)"
    using lo y0 by (intro divide_strict_left_mono) simp_all
  ultimately show ?thesis unfolding p v by simp
qed

lemma expo_unique:
  assumes "2 powi k \<le> \<bar>v\<bar>" and "\<bar>v\<bar> < 2 powi (k + 1)"
  shows "expo v = k"
proof -
  have "0 < (2::real) powi k" by (simp add: zero_less_power_int)
  with assms(1) have "0 < \<bar>v\<bar>" by linarith
  then have v: "v \<noteq> 0" by auto
  note b = expo_bounds[OF v]
  have "\<not> k + 1 \<le> expo v"
  proof
    assume "k + 1 \<le> expo v"
    then have "(2::real) powi (k + 1) \<le> 2 powi expo v" by (intro power_int_increasing) simp_all
    with b assms(2) show False by linarith
  qed
  moreover have "\<not> expo v + 1 \<le> k"
  proof
    assume "expo v + 1 \<le> k"
    then have "(2::real) powi (expo v + 1) \<le> 2 powi k" by (intro power_int_increasing) simp_all
    with b assms(1) show False by linarith
  qed
  ultimately show ?thesis by linarith
qed

lemma rhe_int [simp]: "round_half_even (of_int k) = k"
  by (simp add: round_half_even_def)

lemma rhe_cases:
  "round_half_even y = \<lfloor>y\<rfloor> \<and> y - of_int \<lfloor>y\<rfloor> \<le> 1 / 2
   \<or> round_half_even y = \<lfloor>y\<rfloor> + 1 \<and> 1 / 2 \<le> y - of_int \<lfloor>y\<rfloor>"
  by (auto simp: round_half_even_def Let_def)

lemma rhe_err: "\<bar>of_int (round_half_even y) - y\<bar> \<le> 1 / 2"
proof -
  have "of_int \<lfloor>y\<rfloor> \<le> y" "y < of_int \<lfloor>y\<rfloor> + 1" by linarith+
  with rhe_cases[of y] show ?thesis by auto
qed

lemma rhe_mono:
  assumes "a \<le> b"
  shows "round_half_even a \<le> round_half_even b"
proof (cases "\<lfloor>a\<rfloor> = \<lfloor>b\<rfloor>")
  case True
  then have "a - of_int \<lfloor>a\<rfloor> \<le> b - of_int \<lfloor>b\<rfloor>" using assms by simp
  with True show ?thesis by (auto simp: round_half_even_def Let_def)
next
  case False
  with assms have "\<lfloor>a\<rfloor> < \<lfloor>b\<rfloor>" using floor_mono[OF assms] by linarith
  moreover have "round_half_even a \<le> \<lfloor>a\<rfloor> + 1" using rhe_cases[of a] by auto
  moreover have "\<lfloor>b\<rfloor> \<le> round_half_even b" using rhe_cases[of b] by auto
  ultimately show ?thesis by linarith
qed

lemma rhe_minus: "round_half_even (- y) = - round_half_even y"
proof (cases "y = of_int \<lfloor>y\<rfloor>")
  case True
  then obtain k where "y = of_int k" ..
  then have "- y = of_int (- k)" by simp
  then show ?thesis using \<open>y = of_int k\<close> by (simp only: rhe_int)
next
  case False
  have fl: "of_int \<lfloor>y\<rfloor> < y" "y < of_int \<lfloor>y\<rfloor> + 1" using False by linarith+
  have nf: "\<lfloor>- y\<rfloor> = - \<lfloor>y\<rfloor> - 1"
  proof (rule floor_unique)
    have c: "of_int (- \<lfloor>y\<rfloor> - 1) = - of_int \<lfloor>y\<rfloor> - (1::real)" by simp
    show "of_int (- \<lfloor>y\<rfloor> - 1) \<le> - y" unfolding c using fl(2) by linarith
    show "- y < of_int (- \<lfloor>y\<rfloor> - 1) + 1" unfolding c using fl(1) by linarith
  qed
  define f where "f = \<lfloor>y\<rfloor>"
  define r where "r = y - of_int f"
  have r': "- y - of_int (- f - 1) = 1 - r" by (simp add: r_def)
  have par: "even (- f - 1) \<longleftrightarrow> odd f" by simp
  have "round_half_even (- y) =
      (if 1 - r < 1 / 2 then - f - 1 else if 1 / 2 < 1 - r then - f else if odd f then - f - 1 else - f)"
    unfolding round_half_even_def Let_def nf f_def[symmetric] r' par by simp
  moreover have "round_half_even y =
      (if r < 1 / 2 then f else if 1 / 2 < r then f + 1 else if even f then f else f + 1)"
    unfolding round_half_even_def Let_def f_def[symmetric] r_def[symmetric] by simp
  ultimately show ?thesis by auto
qed

lemma ulp_pos: "0 < (2::real) powi k"
  by (simp add: zero_less_power_int)

lemma power_int_add2: "(2::real) powi (a + b) = 2 powi a * 2 powi b"
  by (rule power_int_add) simp

lemma ulp_shift: "2 ^ p * (2::real) powi (e - int p) = 2 powi e"
proof -
  have "(2::real) powi (int p + (e - int p)) = 2 powi int p * 2 powi (e - int p)"
    by (rule power_int_add2)
  then show ?thesis by simp
qed

lemma ulp_shift1: "2 ^ Suc p * (2::real) powi (e - int p) = 2 powi (e + 1)"
proof -
  have "(2::real) powi (int (Suc p) + (e - int p)) = 2 powi int (Suc p) * 2 powi (e - int p)"
    by (rule power_int_add2)
  moreover have "int (Suc p) + (e - int p) = e + 1" by simp
  ultimately show ?thesis by (simp only: power_int_of_nat)
qed

lemma of_int_ge_pow2: "2 ^ n \<le> k \<Longrightarrow> (2::real) ^ n \<le> of_int k"
proof -
  assume "2 ^ n \<le> k"
  then have "real_of_int (2 ^ n) \<le> of_int k" by (simp only: of_int_le_iff)
  then show ?thesis by simp
qed

lemma of_int_less_pow2: "k < 2 ^ n \<Longrightarrow> of_int k < (2::real) ^ n"
proof -
  assume "k < 2 ^ n"
  then have "real_of_int k < of_int (2 ^ n)" by (simp only: of_int_less_iff)
  then show ?thesis by simp
qed

lemma rhe_pow2: "round_half_even ((2::real) ^ n) = 2 ^ n"
  using rhe_int[of "2 ^ n"] by simp

lemma rt_zero [simp]: "round_to p 0 = 0"
  by (simp add: round_to_def)

lemma rt_repr:
  "v \<noteq> 0 \<Longrightarrow>
     round_to p v = of_int (round_half_even (v / 2 powi (expo v - int p))) * 2 powi (expo v - int p)"
  by (simp add: round_to_def)

lemma expo_minus [simp]: "expo (- v) = expo v"
  by (simp add: expo_def)

lemma rt_minus: "round_to p (- v) = - round_to p v"
  by (cases "v = 0") (simp_all add: rt_repr rhe_minus)

text \<open>The significand of a positive number lies in \<open>[2\<^sup>p, 2\<^sup>p\<^sup>+\<^sup>1)\<close>.\<close>

lemma significand_bounds:
  assumes "0 < v"
  shows "2 ^ p \<le> v / 2 powi (expo v - int p)" and "v / 2 powi (expo v - int p) < 2 ^ Suc p"
proof -
  let ?u = "(2::real) powi (expo v - int p)"
  from assms have v: "v \<noteq> 0" "\<bar>v\<bar> = v" by simp_all
  from expo_bounds[OF v(1)] have b: "2 powi expo v \<le> v" "v < 2 powi (expo v + 1)"
    unfolding v(2) by simp_all
  have u: "0 < ?u" by (rule ulp_pos)
  have "2 ^ p * ?u \<le> v" using b(1) unfolding ulp_shift .
  then show "2 ^ p \<le> v / ?u" using u by (simp only: pos_le_divide_eq)
  have "v < 2 ^ Suc p * ?u" using b(2) unfolding ulp_shift1 .
  then show "v / ?u < 2 ^ Suc p" using u by (simp only: pos_divide_less_eq)
qed

lemma rt_err: "\<bar>round_to p v - v\<bar> \<le> \<bar>v\<bar> / 2 ^ Suc p"
proof (cases "v = 0")
  case True
  then show ?thesis by simp
next
  case False
  let ?u = "(2::real) powi (expo v - int p)"
  have u: "0 < ?u" by (rule ulp_pos)
  have "round_to p v - v = (of_int (round_half_even (v / ?u)) - v / ?u) * ?u"
    using u by (simp add: rt_repr[OF False] algebra_simps)
  then have "\<bar>round_to p v - v\<bar> = \<bar>of_int (round_half_even (v / ?u)) - v / ?u\<bar> * ?u"
    using u by (simp add: abs_mult)
  also have "\<dots> \<le> 1 / 2 * ?u" using rhe_err[of "v / ?u"] u by (intro mult_right_mono) simp_all
  also have "\<dots> \<le> \<bar>v\<bar> / 2 ^ Suc p"
  proof -
    have "2 ^ p * ?u \<le> \<bar>v\<bar>" using expo_bounds[OF False] unfolding ulp_shift by simp
    then have "2 ^ p * ?u / 2 ^ Suc p \<le> \<bar>v\<bar> / 2 ^ Suc p" by (intro divide_right_mono) simp_all
    then show ?thesis by simp
  qed
  finally show ?thesis .
qed

lemma rt_nonneg: "0 \<le> v \<Longrightarrow> 0 \<le> round_to p v"
proof (cases "v = 0")
  case False
  assume "0 \<le> v"
  then have "0 \<le> v / 2 powi (expo v - int p)" using ulp_pos[of "expo v - int p"] by simp
  from rhe_mono[OF this] have "0 \<le> round_half_even (v / 2 powi (expo v - int p))"
    using rhe_int[of 0] by simp
  then show ?thesis using ulp_pos[of "expo v - int p"] by (simp add: rt_repr[OF False])
qed simp

lemma rt_upper:
  assumes "0 < a"
  shows "round_to p a \<le> 2 powi (expo a + 1)"
proof -
  let ?ua = "(2::real) powi (expo a - int p)"
  from assms have nz: "a \<noteq> 0" by simp
  have "round_half_even (a / ?ua) \<le> round_half_even (2 ^ Suc p)"
    using significand_bounds(2)[OF assms, of p] by (intro rhe_mono) simp
  then have "round_half_even (a / ?ua) \<le> 2 ^ Suc p" by (simp only: rhe_pow2)
  then have "real_of_int (round_half_even (a / ?ua)) \<le> of_int (2 ^ Suc p)" by (simp only: of_int_le_iff)
  then have "real_of_int (round_half_even (a / ?ua)) \<le> 2 ^ Suc p" by simp
  then have "real_of_int (round_half_even (a / ?ua)) * ?ua \<le> 2 ^ Suc p * ?ua"
    using ulp_pos[of "expo a - int p"] by (intro mult_right_mono) simp_all
  then show ?thesis unfolding ulp_shift1 rt_repr[OF nz] .
qed

lemma rt_lower:
  assumes "0 < b"
  shows "2 powi expo b \<le> round_to p b"
proof -
  let ?ub = "(2::real) powi (expo b - int p)"
  from assms have nz: "b \<noteq> 0" by simp
  have "round_half_even (2 ^ p) \<le> round_half_even (b / ?ub)"
    using significand_bounds(1)[OF assms, of p] by (intro rhe_mono) simp
  then have "2 ^ p \<le> round_half_even (b / ?ub)" by (simp only: rhe_pow2)
  then have "(2::real) ^ p \<le> of_int (round_half_even (b / ?ub))" by (rule of_int_ge_pow2)
  then have "2 ^ p * ?ub \<le> real_of_int (round_half_even (b / ?ub)) * ?ub"
    using ulp_pos[of "expo b - int p"] by (intro mult_right_mono) simp_all
  then show ?thesis unfolding ulp_shift rt_repr[OF nz] .
qed

lemma rt_mono_pos:
  assumes "0 < a" and "a \<le> b"
  shows "round_to p a \<le> round_to p b"
proof -
  let ?ua = "(2::real) powi (expo a - int p)"
  from assms have b0: "0 < b" by simp
  from assms b0 have nz: "a \<noteq> 0" "b \<noteq> 0" by simp_all
  have ea: "2 powi expo a \<le> a" using expo_bounds[OF nz(1)] assms(1) by simp
  have eb: "b < 2 powi (expo b + 1)" using expo_bounds[OF nz(2)] b0 by simp
  have le: "expo a \<le> expo b"
  proof (rule ccontr)
    assume "\<not> expo a \<le> expo b"
    then have "expo b + 1 \<le> expo a" by simp
    then have "(2::real) powi (expo b + 1) \<le> 2 powi expo a"
      by (intro power_int_increasing) simp_all
    with ea eb assms(2) show False by linarith
  qed
  show ?thesis
  proof (cases "expo a = expo b")
    case True
    have "a / ?ua \<le> b / ?ua" using assms(2) ulp_pos[of "expo a - int p"] by (simp add: divide_right_mono)
    from rhe_mono[OF this] have "real_of_int (round_half_even (a / ?ua)) \<le> of_int (round_half_even (b / ?ua))"
      by (simp only: of_int_le_iff)
    then have "real_of_int (round_half_even (a / ?ua)) * ?ua \<le> of_int (round_half_even (b / ?ua)) * ?ua"
      using ulp_pos[of "expo a - int p"] by (intro mult_right_mono) simp_all
    then show ?thesis unfolding rt_repr[OF nz(1)] rt_repr[OF nz(2)] True .
  next
    case False
    with le have lt: "expo a + 1 \<le> expo b" by simp
    have "round_to p a \<le> 2 powi (expo a + 1)" using assms(1) by (rule rt_upper)
    also have "\<dots> \<le> 2 powi expo b" using lt by (intro power_int_increasing) simp_all
    also have "\<dots> \<le> round_to p b" using b0 by (rule rt_lower)
    finally show ?thesis .
  qed
qed

lemma rt_mono:
  assumes "a \<le> b"
  shows "round_to p a \<le> round_to p b"
proof -
  consider "0 < a" | "b < 0" | "a \<le> 0" "0 \<le> b" by linarith
  then show ?thesis
  proof cases
    case 1
    then show ?thesis using assms by (rule rt_mono_pos)
  next
    case 2
    then have "0 < - b" "- b \<le> - a" using assms by simp_all
    from rt_mono_pos[OF this] show ?thesis by (simp add: rt_minus)
  next
    case 3
    have "0 \<le> round_to p (- a)" using 3(1) by (intro rt_nonneg) simp
    then have "round_to p a \<le> 0" by (simp add: rt_minus)
    moreover have "0 \<le> round_to p b" using 3(2) by (rule rt_nonneg)
    ultimately show ?thesis by simp
  qed
qed

lemma rt_exact:
  assumes "v = of_int j * 2 powi (expo v - int p)"
  shows "round_to p v = v"
proof (cases "v = 0")
  case False
  let ?u = "(2::real) powi (expo v - int p)"
  have u: "?u \<noteq> 0" using ulp_pos[of "expo v - int p"] by simp
  have "v / ?u = of_int j * ?u / ?u" using assms by simp
  then have "v / ?u = of_int j" using u by simp
  then have "round_to p v = of_int j * ?u" by (simp add: rt_repr[OF False])
  with assms show ?thesis by simp
qed simp

lemma expo_scale:
  assumes "v \<noteq> 0"
  shows "expo (v * 2 powi k) = expo v + k"
proof (rule expo_unique)
  have a: "\<bar>v * 2 powi k\<bar> = \<bar>v\<bar> * 2 powi k" using ulp_pos[of k] by (simp add: abs_mult)
  note b = expo_bounds[OF assms]
  show "2 powi (expo v + k) \<le> \<bar>v * 2 powi k\<bar>"
    unfolding a power_int_add2 using b ulp_pos[of k] by (intro mult_right_mono) simp_all
  have "expo v + k + 1 = (expo v + 1) + k" by simp
  then have "(2::real) powi (expo v + k + 1) = 2 powi (expo v + 1) * 2 powi k"
    by (simp only: power_int_add2)
  moreover have "\<bar>v\<bar> * 2 powi k < 2 powi (expo v + 1) * 2 powi k"
    using b ulp_pos[of k] by (intro mult_strict_right_mono) simp_all
  ultimately show "\<bar>v * 2 powi k\<bar> < 2 powi (expo v + k + 1)"
    unfolding a by simp
qed

lemma rt_scale: "round_to p (v * 2 powi k) = round_to p v * 2 powi k"
proof (cases "v = 0")
  case False
  let ?u = "(2::real) powi (expo v - int p)"
  have nz: "v * 2 powi k \<noteq> 0" using False ulp_pos[of k] by simp
  have "expo v + k - int p = (expo v - int p) + k" by simp
  then have u': "(2::real) powi (expo (v * 2 powi k) - int p) = ?u * 2 powi k"
    unfolding expo_scale[OF False] by (simp only: power_int_add2)
  have k0: "(2::real) powi k \<noteq> 0" using ulp_pos[of k] by simp
  have q: "v * 2 powi k / (?u * 2 powi k) = v / ?u" using k0 by simp
  show ?thesis
    unfolding rt_repr[OF nz] rt_repr[OF False] u' q by (simp only: mult.assoc)
qed simp

lemma rt_idem_pos:
  assumes "0 < v"
  shows "round_to p (round_to p v) = round_to p v"
proof -
  let ?e = "expo v"
  let ?u = "(2::real) powi (?e - int p)"
  define k where "k = round_half_even (v / ?u)"
  from assms have nz: "v \<noteq> 0" by simp
  have w: "round_to p v = of_int k * ?u" by (simp add: rt_repr[OF nz] k_def)
  have u: "0 < ?u" by (rule ulp_pos)
  have dn: "2 powi ?e \<le> of_int k * ?u" using rt_lower[OF assms, of p] unfolding w .
  have hi: "of_int k * ?u \<le> 2 powi (?e + 1)" using rt_upper[OF assms, of p] unfolding w .
  have pos: "0 < of_int k * ?u" using dn ulp_pos[of ?e] by linarith
  show ?thesis
  proof (cases "of_int k * ?u = 2 powi (?e + 1)")
    case True
    have e': "expo (2 powi (?e + 1)) = ?e + 1"
    proof (rule expo_unique)
      show "(2::real) powi (?e + 1) \<le> \<bar>2 powi (?e + 1)\<bar>" by simp
      have "(2::real) powi (?e + 1) < 2 powi (?e + 1 + 1)" by (intro power_int_strict_increasing) simp_all
      then show "\<bar>(2::real) powi (?e + 1)\<bar> < 2 powi (?e + 1 + 1)" using ulp_pos[of "?e + 1"] by simp
    qed
    have "(2::real) powi (?e + 1) = of_int (2 ^ p) * 2 powi (expo (2 powi (?e + 1)) - int p)"
      unfolding e' using ulp_shift[of p "?e + 1"] by simp
    from rt_exact[OF this] show ?thesis unfolding w True .
  next
    case False
    with hi have up: "of_int k * ?u < 2 powi (?e + 1)" by simp
    have a: "\<bar>of_int k * ?u\<bar> = of_int k * ?u" using pos by simp
    have e': "expo (of_int k * ?u) = ?e"
      by (rule expo_unique) (use dn up a in simp_all)
    have "of_int k * ?u = of_int k * 2 powi (expo (of_int k * ?u) - int p)" unfolding e' ..
    from rt_exact[OF this] show ?thesis unfolding w .
  qed
qed

lemma rt_idem: "round_to p (round_to p v) = round_to p v"
proof -
  consider "0 < v" | "v = 0" | "v < 0" by linarith
  then show ?thesis
  proof cases
    case 1
    then show ?thesis by (rule rt_idem_pos)
  next
    case 2
    then show ?thesis by simp
  next
    case 3
    then have "0 < - v" by simp
    from rt_idem_pos[OF this, of p] show ?thesis by (simp add: rt_minus)
  qed
qed

lemma rt_int:
  assumes "\<bar>k\<bar> < 2 ^ Suc p"
  shows "round_to p (of_int k) = of_int k"
proof (cases "k = 0")
  case False
  let ?e = "expo (of_int k)"
  have nz: "real_of_int k \<noteq> 0" using False by simp
  have "real_of_int \<bar>k\<bar> < 2 ^ Suc p" using assms by (rule of_int_less_pow2)
  then have "\<bar>real_of_int k\<bar> < 2 powi int (Suc p)" by (simp only: power_int_of_nat of_int_abs)
  with expo_bounds[OF nz] have "(2::real) powi ?e < 2 powi int (Suc p)" by linarith
  then have "?e < int (Suc p)" by (rule power_int_le_imp_less_exp[rotated]) simp_all
  then obtain n where n: "int p - ?e = int n" using nonneg_int_cases[of "int p - ?e"] by auto
  then have e: "?e - int p = - int n" by simp
  have "real_of_int (k * 2 ^ n) * 2 powi (?e - int p) = of_int k"
    unfolding e by (simp add: power_int_minus_divide)
  then have "of_int k = real_of_int (k * 2 ^ n) * 2 powi (expo (of_int k) - int p)" by simp
  from rt_exact[OF this] show ?thesis .
qed simp

text \<open>Double precision.\<close>

lemma rd_err: "\<bar>round_double v - v\<bar> \<le> \<bar>v\<bar> / 2 ^ 53"
  using rt_err[of 52 v] by (simp add: round_double_def)

lemma rd_mono: "a \<le> b \<Longrightarrow> round_double a \<le> round_double b"
  unfolding round_double_def by (rule rt_mono)

lemma rd_minus: "round_double (- v) = - round_double v"
  unfolding round_double_def by (rule rt_minus)

lemma rd_zero [simp]: "round_double 0 = 0"
  by (simp add: round_double_def)

lemma rd_idem: "round_double (round_double v) = round_double v"
  unfolding round_double_def by (rule rt_idem)

lemma rd_quarter: "round_double (v * (1 / 4)) = round_double v * (1 / 4)"
proof -
  have "(1::real) / 4 = 2 powi (- 2)" by (simp add: power_int_minus_divide)
  then show ?thesis unfolding round_double_def using rt_scale[of 52 v "- 2"] by simp
qed

lemma rd_int: "\<bar>k\<bar> < 2 ^ 53 \<Longrightarrow> round_double (of_int k) = of_int k"
  unfolding round_double_def using rt_int[of k 52] by simp

lemma is_double_round [simp]: "is_double (round_double v)"
  by (simp add: is_double_def rd_idem)

lemma is_double_int: "\<bar>k\<bar> < 2 ^ 53 \<Longrightarrow> is_double (of_int k)"
  by (simp add: is_double_def rd_int)

lemmas rd_eval = round_double_def round_to_def expo_def round_half_even_def Let_def bit_length.simps

subsection \<open>Interpolation in double precision\<close>

lemma quarter: "(0.25::real) = 1 / 4" "(0.75::real) = 3 / 4"
  by simp_all

lemma exact_contracts:
  fixes x t :: real
  shows "\<bar>(x + (t - x) / 4) - t\<bar> = 3 / 4 * \<bar>x - t\<bar>"
proof -
  have e1: "(x + (t - x) / 4) - t = 3 / 4 * (x - t)" by (simp add: field_simps)
  have "\<bar>3 / 4 * (x - t)\<bar> = \<bar>3 / 4\<bar> * \<bar>x - t\<bar>" by (rule abs_mult)
  then show ?thesis unfolding e1 by simp
qed

lemma abs_diff_triangle:
  fixes a b c :: real
  shows "\<bar>\<bar>a - c\<bar> - \<bar>b - c\<bar>\<bar> \<le> \<bar>a - b\<bar>"
  by linarith

lemma lerp_facts:
  assumes x: "is_double x" and t: "is_double t"
  shows "(x \<le> t \<longrightarrow> x \<le> lerp x t (1 / 4) \<and> lerp x t (1 / 4) \<le> t)
       \<and> (t \<le> x \<longrightarrow> t \<le> lerp x t (1 / 4) \<and> lerp x t (1 / 4) \<le> x)
       \<and> \<bar>lerp x t (1 / 4) - (x + (t - x) / 4)\<bar>
            \<le> max \<bar>x\<bar> \<bar>t\<bar> / 2 ^ 53 + \<bar>t - x\<bar> / 2 ^ 55"
proof -
  define d where "d = round_double (t - x)"
  define v where "v = x + d / 4"
  have m: "round_double (d * (1 / 4)) = d / 4"
    unfolding d_def rd_quarter rd_idem by simp
  have l: "lerp x t (1 / 4) = round_double v"
    unfolding lerp_def v_def d_def[symmetric] m ..
  define w where "w = \<bar>t - x\<bar> / 2 ^ 53"
  have derr: "\<bar>d - (t - x)\<bar> \<le> w" unfolding d_def w_def by (rule rd_err)
  have w: "0 \<le> w" "w \<le> \<bar>t - x\<bar>"
  proof -
    show "0 \<le> w" by (simp add: w_def)
    have "\<bar>t - x\<bar> / 2 ^ 53 \<le> \<bar>t - x\<bar> / 1" by (intro divide_left_mono) simp_all
    then show "w \<le> \<bar>t - x\<bar>" by (simp add: w_def)
  qed
  have rx: "round_double x = x" and rt: "round_double t = t" using x t by (simp_all add: is_double_def)
  have up: "x \<le> v \<and> v \<le> t" if "x \<le> t"
  proof -
    have "0 \<le> d" unfolding d_def using rd_mono[of 0 "t - x"] that by simp
    moreover have "d \<le> (t - x) + w" using derr by (simp add: abs_le_iff)
    moreover have "w \<le> t - x" using w(2) that by simp
    ultimately show ?thesis unfolding v_def using that by linarith
  qed
  have down: "t \<le> v \<and> v \<le> x" if "t \<le> x"
  proof -
    have "d \<le> 0" unfolding d_def using rd_mono[of "t - x" 0] that by simp
    moreover have "(t - x) - w \<le> d" using derr by (simp add: abs_le_iff)
    moreover have "w \<le> x - t" using w(2) that by simp
    ultimately show ?thesis unfolding v_def using that by linarith
  qed
  have 1: "x \<le> t \<longrightarrow> x \<le> lerp x t (1 / 4) \<and> lerp x t (1 / 4) \<le> t"
  proof
    assume "x \<le> t"
    from up[OF this] have "round_double x \<le> round_double v" "round_double v \<le> round_double t"
      by (simp_all add: rd_mono)
    then show "x \<le> lerp x t (1 / 4) \<and> lerp x t (1 / 4) \<le> t" unfolding l rx rt by simp
  qed
  have 2: "t \<le> x \<longrightarrow> t \<le> lerp x t (1 / 4) \<and> lerp x t (1 / 4) \<le> x"
  proof
    assume "t \<le> x"
    from down[OF this] have "round_double t \<le> round_double v" "round_double v \<le> round_double x"
      by (simp_all add: rd_mono)
    then show "t \<le> lerp x t (1 / 4) \<and> lerp x t (1 / 4) \<le> x" unfolding l rx rt by simp
  qed
  have vb: "\<bar>v\<bar> \<le> max \<bar>x\<bar> \<bar>t\<bar>"
  proof (cases "x \<le> t")
    case True
    from up[OF this] show ?thesis by (auto simp: abs_le_iff max_def)
  next
    case False
    then have "t \<le> x" by simp
    from down[OF this] show ?thesis by (auto simp: abs_le_iff max_def)
  qed
  have "\<bar>round_double v - v\<bar> \<le> \<bar>v\<bar> / 2 ^ 53" by (rule rd_err)
  also have "\<dots> \<le> max \<bar>x\<bar> \<bar>t\<bar> / 2 ^ 53" using vb by (intro divide_right_mono) simp_all
  finally have e1: "\<bar>round_double v - v\<bar> \<le> max \<bar>x\<bar> \<bar>t\<bar> / 2 ^ 53" .
  have ve: "v - (x + (t - x) / 4) = (d - (t - x)) / 4" unfolding v_def by (simp add: field_simps)
  have "\<bar>v - (x + (t - x) / 4)\<bar> = \<bar>d - (t - x)\<bar> / 4" unfolding ve by simp
  also have "\<dots> \<le> w / 4" using derr by (intro divide_right_mono) simp_all
  also have "\<dots> = \<bar>t - x\<bar> / 2 ^ 55" by (simp add: w_def)
  finally have e2: "\<bar>v - (x + (t - x) / 4)\<bar> \<le> \<bar>t - x\<bar> / 2 ^ 55" .
  have 3: "\<bar>lerp x t (1 / 4) - (x + (t - x) / 4)\<bar>
            \<le> max \<bar>x\<bar> \<bar>t\<bar> / 2 ^ 53 + \<bar>t - x\<bar> / 2 ^ 55"
    unfolding l using e1 e2 by linarith
  from 1 2 3 show ?thesis by blast
qed

text \<open>
  The positions of the car on its way from the start (373) to lane 0 (160), pass by pass,
  in double precision. From the 125th pass on the position does not change.
\<close>

lemma car_path_steps:
  "lerp (373) 160 (1 / 4) = 1279 / 4"
  "lerp (1279 / 4) 160 (1 / 4) = 4477 / 16"
  "lerp (4477 / 16) 160 (1 / 4) = 15991 / 64"
  "lerp (15991 / 64) 160 (1 / 4) = 58213 / 256"
  "lerp (58213 / 256) 160 (1 / 4) = 215599 / 1024"
  "lerp (215599 / 1024) 160 (1 / 4) = 810637 / 4096"
  "lerp (810637 / 4096) 160 (1 / 4) = 3087271 / 16384"
  "lerp (3087271 / 16384) 160 (1 / 4) = 11883253 / 65536"
  "lerp (11883253 / 65536) 160 (1 / 4) = 46135519 / 262144"
  "lerp (46135519 / 262144) 160 (1 / 4) = 180349597 / 1048576"
  "lerp (180349597 / 1048576) 160 (1 / 4) = 708820951 / 4194304"
  "lerp (708820951 / 4194304) 160 (1 / 4) = 2797551493 / 16777216"
  "lerp (2797551493 / 16777216) 160 (1 / 4) = 11077009039 / 67108864"
  "lerp (11077009039 / 67108864) 160 (1 / 4) = 43968445357 / 268435456"
  "lerp (43968445357 / 268435456) 160 (1 / 4) = 174855009031 / 1073741824"
  "lerp (174855009031 / 1073741824) 160 (1 / 4) = 696363718933 / 4294967296"
  "lerp (696363718933 / 4294967296) 160 (1 / 4) = 2776285924159 / 17179869184"
  "lerp (2776285924159 / 17179869184) 160 (1 / 4) = 11077636841917 / 68719476736"
  "lerp (11077636841917 / 68719476736) 160 (1 / 4) = 44228026803511 / 274877906944"
  "lerp (44228026803511 / 274877906944) 160 (1 / 4) = 176664545521573 / 1099511627776"
  "lerp (176664545521573 / 1099511627776) 160 (1 / 4) = 705915497008879 / 4398046511104"
  "lerp (705915497008879 / 4398046511104) 160 (1 / 4) = 2821433932803277 / 17592186044416"
  "lerp (2821433932803277 / 17592186044416) 160 (1 / 4) = 1409881445689549 / 8796093022208"
  "lerp (1409881445689549 / 8796093022208) 160 (1 / 4) = 5637019220621927 / 35184372088832"
  "lerp (5637019220621927 / 35184372088832) 160 (1 / 4) = 5635139299019725 / 35184372088832"
  "lerp (5635139299019725 / 35184372088832) 160 (1 / 4) = 2816864678909037 / 17592186044416"
  "lerp (2816864678909037 / 17592186044416) 160 (1 / 4) = 1408167975479209 / 8796093022208"
  "lerp (1408167975479209 / 8796093022208) 160 (1 / 4) = 5631878809990907 / 35184372088832"
  "lerp (5631878809990907 / 35184372088832) 160 (1 / 4) = 1407820997761615 / 8796093022208"
  "lerp (1407820997761615 / 8796093022208) 160 (1 / 4) = 5630837876838125 / 35184372088832"
  "lerp (5630837876838125 / 35184372088832) 160 (1 / 4) = 2815251645590937 / 17592186044416"
  "lerp (2815251645590937 / 17592186044416) 160 (1 / 4) = 2815126175969843 / 17592186044416"
  "lerp (2815126175969843 / 17592186044416) 160 (1 / 4) = 1407516036877011 / 8796093022208"
  "lerp (1407516036877011 / 8796093022208) 160 (1 / 4) = 5629922994184313 / 35184372088832"
  "lerp (5629922994184313 / 35184372088832) 160 (1 / 4) = 5629817129191515 / 35184372088832"
  "lerp (5629817129191515 / 35184372088832) 160 (1 / 4) = 1407434432611729 / 8796093022208"
  "lerp (1407434432611729 / 8796093022208) 160 (1 / 4) = 5629678181388467 / 35184372088832"
  "lerp (5629678181388467 / 35184372088832) 160 (1 / 4) = 2814816759797315 / 17592186044416"
  "lerp (2814816759797315 / 17592186044416) 160 (1 / 4) = 1407400005812313 / 8796093022208"
  "lerp (1407400005812313 / 8796093022208) 160 (1 / 4) = 5629574900990219 / 35184372088832"
  "lerp (5629574900990219 / 35184372088832) 160 (1 / 4) = 703694507411993 / 4398046511104"
  "lerp (703694507411993 / 4398046511104) 160 (1 / 4) = 2814770964012619 / 17592186044416"
  "lerp (2814770964012619 / 17592186044416) 160 (1 / 4) = 351845708098263 / 2199023255552"
  "lerp (351845708098263 / 2199023255552) 160 (1 / 4) = 1407380845183109 / 8796093022208"
  "lerp (1407380845183109 / 8796093022208) 160 (1 / 4) = 5629517419102607 / 35184372088832"
  "lerp (5629517419102607 / 35184372088832) 160 (1 / 4) = 5629512947880235 / 35184372088832"
  "lerp (5629512947880235 / 35184372088832) 160 (1 / 4) = 175922174826983 / 1099511627776"
  "lerp (175922174826983 / 1099511627776) 160 (1 / 4) = 703688384925109 / 4398046511104"
  "lerp (703688384925109 / 4398046511104) 160 (1 / 4) = 2814752596551967 / 17592186044416"
  "lerp (2814752596551967 / 17592186044416) 160 (1 / 4) = 2814751889190615 / 17592186044416"
  "lerp (2814751889190615 / 17592186044416) 160 (1 / 4) = 2814751358669601 / 17592186044416"
  "lerp (2814751358669601 / 17592186044416) 160 (1 / 4) = 2814750960778841 / 17592186044416"
  "lerp (2814750960778841 / 17592186044416) 160 (1 / 4) = 2814750662360771 / 17592186044416"
  "lerp (2814750662360771 / 17592186044416) 160 (1 / 4) = 1407375219273609 / 8796093022208"
  "lerp (1407375219273609 / 8796093022208) 160 (1 / 4) = 5629500541374107 / 35184372088832"
  "lerp (5629500541374107 / 35184372088832) 160 (1 / 4) = 1407375072395965 / 8796093022208"
  "lerp (1407375072395965 / 8796093022208) 160 (1 / 4) = 5629500100741175 / 35184372088832"
  "lerp (5629500100741175 / 35184372088832) 160 (1 / 4) = 5629499959109161 / 35184372088832"
  "lerp (5629499959109161 / 35184372088832) 160 (1 / 4) = 5629499852885151 / 35184372088832"
  "lerp (5629499852885151 / 35184372088832) 160 (1 / 4) = 5629499773217143 / 35184372088832"
  "lerp (5629499773217143 / 35184372088832) 160 (1 / 4) = 5629499713466137 / 35184372088832"
  "lerp (5629499713466137 / 35184372088832) 160 (1 / 4) = 5629499668652883 / 35184372088832"
  "lerp (5629499668652883 / 35184372088832) 160 (1 / 4) = 2814749817521471 / 17592186044416"
  "lerp (2814749817521471 / 17592186044416) 160 (1 / 4) = 2814749804917743 / 17592186044416"
  "lerp (2814749804917743 / 17592186044416) 160 (1 / 4) = 2814749795464947 / 17592186044416"
  "lerp (2814749795464947 / 17592186044416) 160 (1 / 4) = 1407374894187675 / 8796093022208"
  "lerp (1407374894187675 / 8796093022208) 160 (1 / 4) = 5629499566116305 / 35184372088832"
  "lerp (5629499566116305 / 35184372088832) 160 (1 / 4) = 5629499558140509 / 35184372088832"
  "lerp (5629499558140509 / 35184372088832) 160 (1 / 4) = 2814749776079331 / 17592186044416"
  "lerp (2814749776079331 / 17592186044416) 160 (1 / 4) = 1407374886918069 / 8796093022208"
  "lerp (1407374886918069 / 8796093022208) 160 (1 / 4) = 5629499544307487 / 35184372088832"
  "lerp (5629499544307487 / 35184372088832) 160 (1 / 4) = 5629499541783895 / 35184372088832"
  "lerp (5629499541783895 / 35184372088832) 160 (1 / 4) = 5629499539891201 / 35184372088832"
  "lerp (5629499539891201 / 35184372088832) 160 (1 / 4) = 5629499538471681 / 35184372088832"
  "lerp (5629499538471681 / 35184372088832) 160 (1 / 4) = 5629499537407041 / 35184372088832"
  "lerp (5629499537407041 / 35184372088832) 160 (1 / 4) = 5629499536608561 / 35184372088832"
  "lerp (5629499536608561 / 35184372088832) 160 (1 / 4) = 5629499536009701 / 35184372088832"
  "lerp (5629499536009701 / 35184372088832) 160 (1 / 4) = 1407374883890139 / 8796093022208"
  "lerp (1407374883890139 / 8796093022208) 160 (1 / 4) = 5629499535223697 / 35184372088832"
  "lerp (5629499535223697 / 35184372088832) 160 (1 / 4) = 5629499534971053 / 35184372088832"
  "lerp (5629499534971053 / 35184372088832) 160 (1 / 4) = 2814749767390785 / 17592186044416"
  "lerp (2814749767390785 / 17592186044416) 160 (1 / 4) = 2814749767319729 / 17592186044416"
  "lerp (2814749767319729 / 17592186044416) 160 (1 / 4) = 2814749767266437 / 17592186044416"
  "lerp (2814749767266437 / 17592186044416) 160 (1 / 4) = 703687441806617 / 4398046511104"
  "lerp (703687441806617 / 4398046511104) 160 (1 / 4) = 2814749767196491 / 17592186044416"
  "lerp (2814749767196491 / 17592186044416) 160 (1 / 4) = 351843720896751 / 2199023255552"
  "lerp (351843720896751 / 2199023255552) 160 (1 / 4) = 1407374883578573 / 8796093022208"
  "lerp (1407374883578573 / 8796093022208) 160 (1 / 4) = 5629499534288999 / 35184372088832"
  "lerp (5629499534288999 / 35184372088832) 160 (1 / 4) = 5629499534270029 / 35184372088832"
  "lerp (5629499534270029 / 35184372088832) 160 (1 / 4) = 2814749767127901 / 17592186044416"
  "lerp (2814749767127901 / 17592186044416) 160 (1 / 4) = 1407374883561283 / 8796093022208"
  "lerp (1407374883561283 / 8796093022208) 160 (1 / 4) = 5629499534237129 / 35184372088832"
  "lerp (5629499534237129 / 35184372088832) 160 (1 / 4) = 5629499534231127 / 35184372088832"
  "lerp (5629499534231127 / 35184372088832) 160 (1 / 4) = 5629499534226625 / 35184372088832"
  "lerp (5629499534226625 / 35184372088832) 160 (1 / 4) = 5629499534223249 / 35184372088832"
  "lerp (5629499534223249 / 35184372088832) 160 (1 / 4) = 5629499534220717 / 35184372088832"
  "lerp (5629499534220717 / 35184372088832) 160 (1 / 4) = 2814749767109409 / 17592186044416"
  "lerp (2814749767109409 / 17592186044416) 160 (1 / 4) = 2814749767108697 / 17592186044416"
  "lerp (2814749767108697 / 17592186044416) 160 (1 / 4) = 2814749767108163 / 17592186044416"
  "lerp (2814749767108163 / 17592186044416) 160 (1 / 4) = 1407374883553881 / 8796093022208"
  "lerp (1407374883553881 / 8796093022208) 160 (1 / 4) = 5629499534214923 / 35184372088832"
  "lerp (5629499534214923 / 35184372088832) 160 (1 / 4) = 703687441776809 / 4398046511104"
  "lerp (703687441776809 / 4398046511104) 160 (1 / 4) = 2814749767107067 / 17592186044416"
  "lerp (2814749767107067 / 17592186044416) 160 (1 / 4) = 703687441776735 / 4398046511104"
  "lerp (703687441776735 / 4398046511104) 160 (1 / 4) = 2814749767106845 / 17592186044416"
  "lerp (2814749767106845 / 17592186044416) 160 (1 / 4) = 1407374883553387 / 8796093022208"
  "lerp (1407374883553387 / 8796093022208) 160 (1 / 4) = 5629499534213441 / 35184372088832"
  "lerp (5629499534213441 / 35184372088832) 160 (1 / 4) = 5629499534213361 / 35184372088832"
  "lerp (5629499534213361 / 35184372088832) 160 (1 / 4) = 5629499534213301 / 35184372088832"
  "lerp (5629499534213301 / 35184372088832) 160 (1 / 4) = 703687441776657 / 4398046511104"
  "lerp (703687441776657 / 4398046511104) 160 (1 / 4) = 2814749767106611 / 17592186044416"
  "lerp (2814749767106611 / 17592186044416) 160 (1 / 4) = 1407374883553299 / 8796093022208"
  "lerp (1407374883553299 / 8796093022208) 160 (1 / 4) = 5629499534213177 / 35184372088832"
  "lerp (5629499534213177 / 35184372088832) 160 (1 / 4) = 5629499534213163 / 35184372088832"
  "lerp (5629499534213163 / 35184372088832) 160 (1 / 4) = 175921860444161 / 1099511627776"
  "lerp (175921860444161 / 1099511627776) 160 (1 / 4) = 703687441776643 / 4398046511104"
  "lerp (703687441776643 / 4398046511104) 160 (1 / 4) = 2814749767106569 / 17592186044416"
  "lerp (2814749767106569 / 17592186044416) 160 (1 / 4) = 2814749767106567 / 17592186044416"
  "lerp (2814749767106567 / 17592186044416) 160 (1 / 4) = 2814749767106565 / 17592186044416"
  "lerp (2814749767106565 / 17592186044416) 160 (1 / 4) = 703687441776641 / 4398046511104"
  "lerp (703687441776641 / 4398046511104) 160 (1 / 4) = 2814749767106563 / 17592186044416"
  "lerp (2814749767106563 / 17592186044416) 160 (1 / 4) = 1407374883553281 / 8796093022208"
  "lerp (1407374883553281 / 8796093022208) 160 (1 / 4) = 5629499534213123 / 35184372088832"
  "lerp (5629499534213123 / 35184372088832) 160 (1 / 4) = 2814749767106561 / 17592186044416"
  "lerp (2814749767106561 / 17592186044416) 160 (1 / 4) = 2814749767106561 / 17592186044416"
  by (simp_all add: lerp_def rd_eval)

lemma car_path_stalls:
  "((\<lambda>x. lerp x 160 (1 / 4)) ^^ 124) 373 = 160 + 1 / 2 ^ 44"
proof -
  have "((\<lambda>x. lerp x 160 (1 / 4)) ^^ 124) 373 = 2814749767106561 / 17592186044416"
    by (simp only: eval_nat_numeral BitM.simps funpow.simps o_apply id_apply car_path_steps)
  then show ?thesis by simp
qed

subsection \<open>The library functions and the particle system\<close>

lemma randint_range:
  "a \<le> b \<Longrightarrow> a \<le> fst (randint a b g) \<and> fst (randint a b g) \<le> b"
  unfolding randint_def
proof -
  assume ab: "a \<le> b"
  have "0 < nat (b - a + 1)" using ab by simp
  then have "shd g mod nat (b - a + 1) < nat (b - a + 1)" by simp
  then have "int (shd g mod nat (b - a + 1)) < b - a + 1" using ab by linarith
  then show "a \<le> fst (a + int (shd g mod nat (b - a + 1)), stl g) \<and>
     fst (a + int (shd g mod nat (b - a + 1)), stl g) \<le> b" by simp
qed

lemma Particle_init_fields:
  "Particle_init x y c g = (p, g') \<Longrightarrow>
     p_x p = x \<and> p_y p = y \<and> p_color p = c \<and> p_life p = p_max_life p \<and> 25 \<le> p_life p \<and> p_life p \<le> 50
     \<and> 3 \<le> p_size p \<and> p_size p \<le> 8"
  using randint_range[of 25 50] randint_range[of 3 8]
  by (auto simp: Particle_init_def split: prod.splits) (metis fst_conv)+

lemma explode_loop_appends:
  "\<exists>new g'. explode_loop n ps x y pal g = (ps @ new, g') \<and> length new = n \<and> (\<forall>p\<in>set new. fresh x y p)"
proof (induction n arbitrary: ps g)
  case 0
  then show ?case by simp
next
  case (Suc n)
  obtain c g1 where c: "choice [fst pal, snd pal, (255, 255, 200), (255, 180, 0)] g = (c, g1)"
    by (cases "choice [fst pal, snd pal, (255, 255, 200), (255, 180, 0)] g")
  obtain p g2 where p: "Particle_init (of_int x) (of_int y) c g1 = (p, g2)"
    by (cases "Particle_init (of_int x) (of_int y) c g1")
  from Suc.IH[of "ps @ [p]" g2] obtain new g' where
    n: "explode_loop n (ps @ [p]) x y pal g2 = ((ps @ [p]) @ new, g')" "length new = n" "\<forall>q\<in>set new. fresh x y q"
    by blast
  have fp: "fresh x y p" using Particle_init_fields[OF p] by (simp add: fresh_def)
  have "explode_loop (Suc n) ps x y pal g = (ps @ (p # new), g')"
    using c p n(1) by simp
  moreover have "length (p # new) = Suc n" using n(2) by simp
  moreover have "\<forall>q\<in>set (p # new). fresh x y q" using fp n(3) by simp
  ultimately show ?case by blast
qed

lemma explode_appends:
  "\<exists>new g'. explode ps x y pal g = (ps @ new, g') \<and> length new = 40 \<and> (\<forall>p\<in>set new. fresh x y p)"
  unfolding explode_def by (rule explode_loop_appends)

lemma particles_step_append:
  "particles_step (ps @ qs) = particles_step ps @ particles_step qs"
  by (simp add: particles_step_def)

lemma particles_funpow_append:
  "(particles_step ^^ n) (ps @ qs) = (particles_step ^^ n) ps @ (particles_step ^^ n) qs"
  by (induction n arbitrary: ps qs) (simp_all add: particles_step_append funpow_swap1)

lemma particles_step_life:
  "q \<in> set (particles_step ps) \<Longrightarrow>
     \<exists>p\<in>set ps. q = Particle_update p \<and> p_life q = p_life p - 1 \<and> p_max_life q = p_max_life p
        \<and> 0 < p_life q"
  by (auto simp: particles_step_def Particle_update_def)

lemma particles_expire:
  "\<forall>p\<in>set ps. p_life p \<le> int n + 1 \<Longrightarrow> (particles_step ^^ Suc n) ps = []"
proof (induction n arbitrary: ps)
  case 0
  then show ?case by (auto simp: particles_step_def Particle_update_def filter_empty_conv)
next
  case (Suc n)
  have "\<forall>q\<in>set (particles_step ps). p_life q \<le> int n + 1"
  proof
    fix q assume "q \<in> set (particles_step ps)"
    from particles_step_life[OF this] Suc.prems show "p_life q \<le> int n + 1" by fastforce
  qed
  from Suc.IH[OF this] show ?case by (simp add: funpow_swap1)
qed

lemma fresh_expire:
  assumes "\<forall>p\<in>set new. fresh x y p" and "50 \<le> n"
  shows "(particles_step ^^ n) new = []"
proof -
  from assms(2) obtain k where n: "n = Suc k" and k: "49 \<le> k" by (cases n) auto
  have "\<forall>p\<in>set new. p_life p \<le> int k + 1" using assms(1) k by (auto simp: fresh_def)
  from particles_expire[OF this] n show ?thesis by simp
qed

text \<open>The outcomes of \<^verbatim>\<open>randint\<close> are equally frequent among the raw draws.\<close>

lemma randint_uniform:
  assumes "a \<le> b" and "a \<le> v" and "v \<le> b"
  shows "card {r. r < nat (b - a + 1) * N \<and> fst (randint a b (r ## g)) = v} = N"
proof -
  define n where "n = nat (b - a + 1)"
  define j where "j = nat (v - a)"
  have n: "0 < n" and j: "j < n" using assms by (simp_all add: n_def j_def)
  have v: "fst (randint a b (r ## g)) = v \<longleftrightarrow> r mod n = j" for r
  proof -
    have "fst (randint a b (r ## g)) = a + int (r mod n)" by (simp add: randint_def n_def)
    then show ?thesis using assms(2) by (auto simp: j_def)
  qed
  have "{r. r < n * N \<and> r mod n = j} = (\<lambda>q. q * n + j) ` {..<N}"
  proof (rule set_eqI, rule iffI)
    fix r assume "r \<in> {r. r < n * N \<and> r mod n = j}"
    then have r: "r < n * N" "r mod n = j" by simp_all
    have "r div n < N" using r(1) n by (simp add: less_mult_imp_div_less mult.commute)
    moreover have "r = (r div n) * n + j" using r(2) by (metis div_mult_mod_eq)
    ultimately show "r \<in> (\<lambda>q. q * n + j) ` {..<N}" by blast
  next
    fix r assume "r \<in> (\<lambda>q. q * n + j) ` {..<N}"
    then obtain q where q: "q < N" "r = q * n + j" by auto
    have "q * n + j < q * n + n" using j by simp
    also have "\<dots> = Suc q * n" by simp
    also have "\<dots> \<le> N * n" using q(1) by (intro mult_le_mono1) simp
    finally have "r < n * N" using q(2) by (simp add: mult.commute)
    moreover have "r mod n = j" using q(2) j by simp
    ultimately show "r \<in> {r. r < n * N \<and> r mod n = j}" by simp
  qed
  moreover have "inj_on (\<lambda>q. q * n + j) {..<N}" using n by (auto simp: inj_on_def)
  ultimately have "card {r. r < n * N \<and> r mod n = j} = N" by (simp add: card_image)
  then show ?thesis unfolding v n_def .
qed

text \<open>The draws of one particle and of one explosion.\<close>

lemma sdrop_stl: "sdrop 2 g = stl (stl g)" "sdrop 3 g = stl (stl (stl g))"
  "sdrop 4 g = stl (stl (stl (stl g)))" "sdrop 5 g = stl (stl (stl (stl (stl g))))"
  by (simp_all add: eval_nat_numeral)

lemma Particle_init_draws:
  assumes "Particle_init x y c g = (p, g')"
  shows "p_life p = fst (randint 25 50 (sdrop 2 g))" and "g' = sdrop 4 g"
proof -
  have "Particle_init x y c g =
      (\<lparr>p_x = x, p_y = y,
        p_vx = round_double (round_double (cos (fst (uniform 0 math_tau g))) * fst (uniform 2 9 (stl g))),
        p_vy = round_double (round_double (sin (fst (uniform 0 math_tau g))) * fst (uniform 2 9 (stl g))),
        p_life = fst (randint 25 50 (stl (stl g))), p_max_life = fst (randint 25 50 (stl (stl g))),
        p_color = c, p_size = fst (randint 3 8 (stl (stl (stl g))))\<rparr>, stl (stl (stl (stl g))))"
    unfolding Particle_init_def uniform_def randint_def by (simp only: prod.case fst_conv)
  with assms have "p = \<lparr>p_x = x, p_y = y,
        p_vx = round_double (round_double (cos (fst (uniform 0 math_tau g))) * fst (uniform 2 9 (stl g))),
        p_vy = round_double (round_double (sin (fst (uniform 0 math_tau g))) * fst (uniform 2 9 (stl g))),
        p_life = fst (randint 25 50 (stl (stl g))), p_max_life = fst (randint 25 50 (stl (stl g))),
        p_color = c, p_size = fst (randint 3 8 (stl (stl (stl g))))\<rparr>"
    and "g' = stl (stl (stl (stl g)))" by simp_all
  then show "p_life p = fst (randint 25 50 (sdrop 2 g))" and "g' = sdrop 4 g"
    by (simp_all only: sdrop_stl particle.select_convs)
qed

lemma explode_loop_draws:
  "\<exists>new. explode_loop n ps x y pal g = (ps @ new, sdrop (5 * n) g) \<and> length new = n
      \<and> (\<forall>k<n. p_life (new ! k) = fst (randint 25 50 (sdrop (5 * k + 3) g)))"
proof (induction n arbitrary: ps g)
  case 0
  then show ?case by simp
next
  case (Suc n)
  obtain c g1 where c: "choice [fst pal, snd pal, (255, 255, 200), (255, 180, 0)] g = (c, g1)"
    by (cases "choice [fst pal, snd pal, (255, 255, 200), (255, 180, 0)] g")
  then have g1: "g1 = stl g" by (simp add: choice_def)
  obtain p g2 where p: "Particle_init (of_int x) (of_int y) c g1 = (p, g2)"
    by (cases "Particle_init (of_int x) (of_int y) c g1")
  from Particle_init_draws[OF p] g1
  have pl: "p_life p = fst (randint 25 50 (sdrop 3 g))" and g2: "g2 = sdrop 5 g"
    by (simp_all only: sdrop_stl)
  from Suc.IH[of "ps @ [p]" g2] obtain new where
    n: "explode_loop n (ps @ [p]) x y pal g2 = ((ps @ [p]) @ new, sdrop (5 * n) g2)" "length new = n"
       "\<forall>k<n. p_life (new ! k) = fst (randint 25 50 (sdrop (5 * k + 3) g2))"
    by blast
  have sd: "sdrop a (sdrop 5 g) = sdrop (5 + a) g" for a by (simp add: sdrop_add add.commute)
  have 1: "explode_loop (Suc n) ps x y pal g = (ps @ (p # new), sdrop (5 * Suc n) g)"
    using c p n(1) by (simp add: g2 sd)
  have 2: "length (p # new) = Suc n" using n(2) by simp
  have 3: "\<forall>k<Suc n. p_life ((p # new) ! k) = fst (randint 25 50 (sdrop (5 * k + 3) g))"
  proof (intro allI impI)
    fix k assume k: "k < Suc n"
    show "p_life ((p # new) ! k) = fst (randint 25 50 (sdrop (5 * k + 3) g))"
    proof (cases k)
      case 0
      then show ?thesis using pl by simp
    next
      case (Suc k')
      with k have "k' < n" by simp
      with n(3) have "p_life (new ! k') = fst (randint 25 50 (sdrop (5 * k' + 3) g2))" by simp
      then show ?thesis using Suc by (simp add: g2 sd algebra_simps)
    qed
  qed
  from 1 2 3 show ?case by blast
qed

lemma explode_draws:
  "\<exists>new. explode ps x y pal g = (ps @ new, sdrop 200 g) \<and> length new = 40
      \<and> (\<forall>k<40. p_life (new ! k) = fst (randint 25 50 (sdrop (5 * k + 3) g)))"
  unfolding explode_def using explode_loop_draws[of 40 ps x y pal g] by simp

lemma explode_loop_sconst:
  "explode_loop n ps x y pal (sconst c) = (qs, g') \<Longrightarrow> g' = sconst c"
  by (induction n arbitrary: ps)
     (auto simp: choice_def Particle_init_def uniform_def randint_def split: prod.splits)

lemma particles_funpow_Nil: "(particles_step ^^ k) [] = []"
  by (induction k) (simp_all add: particles_step_def)

lemma particles_step_length:
  "\<forall>p\<in>set ps. 1 < p_life p \<Longrightarrow> length (particles_step ps) = length ps"
  by (induction ps) (simp_all add: particles_step_def Particle_update_def)

lemma fresh_expire_next:
  assumes "\<forall>p\<in>set new. fresh x y p" and "49 \<le> k"
  shows "(particles_step ^^ k) (particles_step new) = []"
  using fresh_expire[OF assms(1), of "Suc k"] assms(2) by (simp add: funpow_swap1)

lemma funpow_join: "(f ^^ b) (f ((f ^^ a) x)) = (f ^^ (b + Suc a)) x"
  by (simp add: funpow_add funpow_swap1)

lemma funpow_Suc_add: "(Suc ^^ n) k = n + k"
  by (induction n) simp_all

lemma ex_draws_at: "ex_draws !! n = n"
  by (simp add: ex_draws_def funpow_Suc_add)

subsection \<open>The body of the enemy loop\<close>

lemma enemy_body_hit:
  assumes "hits car e s"
  shows "\<exists>new g' s'. enemy_body car e (s, g) = ((moved e (enemy_spd s), True), s', g')
     \<and> particles s' = particles s @ new \<and> length new = 40
     \<and> (\<forall>p\<in>set new. fresh (e_cx e) (py_int (e_y e + enemy_spd s + real_of_int (ENEMY_H div 2))) p)
     \<and> lives s' = lives s - 1 \<and> score s' = score s \<and> enemy_spd s' = enemy_spd s
     \<and> game_over s' = (lives s - 1 \<le> 0 \<or> game_over s)
     \<and> go_timer s' = (if lives s - 1 \<le> 0 then FPS * 2 else go_timer s)
     \<and> car_y s' = car_y s \<and> spawn_cd s' = spawn_cd s \<and> enemies s' = enemies s
     \<and> hand_x s' = hand_x s \<and> car_x_px s' = car_x_px s \<and> car_lane s' = car_lane s
     \<and> tick s' = tick s \<and> dash_off s' = dash_off s"
proof -
  let ?y = "py_int (e_y e + enemy_spd s + real_of_int (ENEMY_H div 2))"
  obtain new g' where ex: "explode (particles s) (e_cx e) ?y (e_pal e) g = (particles s @ new, g')"
    and len: "length new = 40" and fr: "\<forall>p\<in>set new. fresh (e_cx e) ?y p"
    using explode_appends by blast
  define s1 where "s1 = s\<lparr>particles := particles s @ new, lives := lives s - 1\<rparr>"
  define s' where "s' = (if lives s1 \<le> 0 then s1\<lparr>game_over := True, go_timer := FPS * 2\<rparr> else s1)"
  have body: "enemy_body car e (s, g) = ((moved e (enemy_spd s), True), s', g')"
    using assms ex by (simp add: enemy_body_def hits_def moved_def Let_def s1_def s'_def add.assoc)
  have "particles s' = particles s @ new \<and> lives s' = lives s - 1 \<and> score s' = score s
     \<and> enemy_spd s' = enemy_spd s
     \<and> game_over s' = (lives s - 1 \<le> 0 \<or> game_over s)
     \<and> go_timer s' = (if lives s - 1 \<le> 0 then FPS * 2 else go_timer s)
     \<and> car_y s' = car_y s \<and> spawn_cd s' = spawn_cd s \<and> enemies s' = enemies s
     \<and> hand_x s' = hand_x s \<and> car_x_px s' = car_x_px s \<and> car_lane s' = car_lane s
     \<and> tick s' = tick s \<and> dash_off s' = dash_off s"
    by (simp add: s'_def s1_def)
  with body len fr show ?thesis by blast
qed

lemma enemy_body_leave:
  assumes "\<not> hits car e s" and "leaves e s"
  shows "enemy_body car e (s, g) =
     ((moved e (enemy_spd s), True),
      s\<lparr>score := score s + 1,
        enemy_spd := (if (score s + 1) mod 8 = 0 then min MAX_SPEED (enemy_spd s + 0.5)
                      else enemy_spd s)\<rparr>, g)"
  using assms by (simp add: enemy_body_def hits_def leaves_def moved_def Let_def)

lemma enemy_body_keep:
  assumes "\<not> hits car e s" and "\<not> leaves e s"
  shows "enemy_body car e (s, g) = ((moved e (enemy_spd s), False), s, g)"
  using assms by (simp add: enemy_body_def hits_def leaves_def moved_def Let_def)

lemma enemy_body_cases [consumes 1, case_names hit leave keep]:
  assumes "enemy_body car e (s, g) = (r, s', g')"
  obtains
    (hit) new where "hits car e s" "r = (moved e (enemy_spd s), True)"
      "particles s' = particles s @ new" "length new = 40"
      "\<forall>p\<in>set new. fresh (e_cx e) (py_int (e_y e + enemy_spd s + real_of_int (ENEMY_H div 2))) p"
      "lives s' = lives s - 1" "score s' = score s" "enemy_spd s' = enemy_spd s"
      "game_over s' = (lives s - 1 \<le> 0 \<or> game_over s)"
      "go_timer s' = (if lives s - 1 \<le> 0 then FPS * 2 else go_timer s)"
      "car_y s' = car_y s" "spawn_cd s' = spawn_cd s" "enemies s' = enemies s"
      "hand_x s' = hand_x s" "car_x_px s' = car_x_px s" "car_lane s' = car_lane s"
      "tick s' = tick s" "dash_off s' = dash_off s"
  | (leave) "\<not> hits car e s" "leaves e s" "r = (moved e (enemy_spd s), True)"
      "s' = s\<lparr>score := score s + 1,
              enemy_spd := (if (score s + 1) mod 8 = 0 then min MAX_SPEED (enemy_spd s + 0.5)
                            else enemy_spd s)\<rparr>" "g' = g"
  | (keep) "\<not> hits car e s" "\<not> leaves e s" "r = (moved e (enemy_spd s), False)" "s' = s" "g' = g"
proof (cases "hits car e s")
  case True
  from enemy_body_hit[OF True, of g] obtain new g1 s1 where
    b: "enemy_body car e (s, g) = ((moved e (enemy_spd s), True), s1, g1)"
    and f: "particles s1 = particles s @ new" "length new = 40"
      "\<forall>p\<in>set new. fresh (e_cx e) (py_int (e_y e + enemy_spd s + real_of_int (ENEMY_H div 2))) p"
      "lives s1 = lives s - 1" "score s1 = score s" "enemy_spd s1 = enemy_spd s"
      "game_over s1 = (lives s - 1 \<le> 0 \<or> game_over s)"
      "go_timer s1 = (if lives s - 1 \<le> 0 then FPS * 2 else go_timer s)"
      "car_y s1 = car_y s" "spawn_cd s1 = spawn_cd s" "enemies s1 = enemies s"
      "hand_x s1 = hand_x s" "car_x_px s1 = car_x_px s" "car_lane s1 = car_lane s"
      "tick s1 = tick s" "dash_off s1 = dash_off s"
    by blast
  from b assms have e: "r = (moved e (enemy_spd s), True)" "s1 = s'" by simp_all
  show ?thesis
    using hit[OF True e(1) f(1-3)[unfolded e(2)] f(4-16)[unfolded e(2)]] .
next
  case False
  show ?thesis
  proof (cases "leaves e s")
    case True
    from assms enemy_body_leave[OF False True, of g]
    have "r = (moved e (enemy_spd s), True)"
      "s' = s\<lparr>score := score s + 1,
              enemy_spd := (if (score s + 1) mod 8 = 0 then min MAX_SPEED (enemy_spd s + 0.5)
                            else enemy_spd s)\<rparr>" "g' = g"
      by auto
    then show ?thesis using leave[OF False True] by blast
  next
    case nl: False
    from assms enemy_body_keep[OF False nl, of g]
    have "r = (moved e (enemy_spd s), False)" "s' = s" "g' = g" by auto
    then show ?thesis using keep[OF False nl] by blast
  qed
qed

lemma enemy_body_frame:
  assumes "enemy_body car e (s, g) = (r, s', g')"
  shows "car_y s' = car_y s \<and> spawn_cd s' = spawn_cd s \<and> enemies s' = enemies s
       \<and> hand_x s' = hand_x s \<and> car_x_px s' = car_x_px s \<and> car_lane s' = car_lane s
       \<and> tick s' = tick s \<and> dash_off s' = dash_off s"
  using assms by (cases rule: enemy_body_cases) simp_all

text \<open>Score and lives account for every enemy the loop deletes.\<close>

lemma enemy_body_account:
  assumes "enemy_body car e (s, g) = ((e', rm), s', g')"
  shows "score s \<le> score s' \<and> lives s' \<le> lives s
       \<and> (score s' - score s) + (lives s - lives s') = (if rm then 1 else 0)"
  using assms by (cases rule: enemy_body_cases) auto

text \<open>The speed follows the multiples of 8 that the score passes.\<close>

lemma min_cap_twice:
  fixes a x y :: real
  assumes "0 \<le> y"
  shows "min 18 (min 18 (a + x) + y) = min 18 (a + (x + y))"
  using assms by (simp add: min_def)

lemma half_diff_add:
  "real_of_int (c - b) / 2 + real_of_int (d - c) / 2 = real_of_int (d - b) / 2"
  by (simp add: add_divide_distrib[symmetric])

lemma enemy_body_speed:
  assumes "enemy_body car e (s, g) = (r, s', g')" and "enemy_spd s \<le> MAX_SPEED"
  shows "enemy_spd s' = min MAX_SPEED (enemy_spd s + real_of_int (score s' div 8 - score s div 8) / 2)"
  using assms(1)
proof (cases rule: enemy_body_cases)
  case (hit new)
  then show ?thesis using assms(2) by simp
next
  case leave
  have sc: "score s' = score s + 1" using leave(4) by simp
  show ?thesis
  proof (cases "(score s + 1) mod 8 = 0")
    case True
    then have "(score s + 1) div 8 - score s div 8 = 1" by presburger
    then have h1: "real_of_int (score s' div 8 - score s div 8) / 2 = 1 / 2" using sc by simp
    have h2: "enemy_spd s' = min MAX_SPEED (enemy_spd s + 1 / 2)" using leave(4) True by simp
    show ?thesis unfolding h1 h2 ..
  next
    case False
    then have "(score s + 1) div 8 - score s div 8 = 0" by presburger
    then have h1: "real_of_int (score s' div 8 - score s div 8) / 2 = 0" using sc by simp
    have h2: "enemy_spd s' = enemy_spd s" using leave(4) False by simp
    show ?thesis unfolding h1 h2 using assms(2) by simp
  qed
next
  case keep
  then show ?thesis using assms(2) by simp
qed

text \<open>An enemy hits the car only while its top is between 409 and 575.\<close>

lemma py_int_less: "py_int v < k \<Longrightarrow> 0 < k \<Longrightarrow> v < real_of_int k"
  by (auto simp: py_int_def floor_less_iff split: if_splits)

lemma py_int_le: "v < real_of_int k \<Longrightarrow> 0 < k \<Longrightarrow> py_int v < k"
  by (auto simp: py_int_def floor_less_iff ceiling_less_iff split: if_splits)

lemma hits_below:
  assumes "hits car e s" and "r_top car = 492" and "r_height car = 84"
  shows "e_y e + enemy_spd s < 576"
proof -
  from assms have "py_int (e_y e + enemy_spd s) < 576"
    by (auto simp: hits_def colliderect_def Rect_def layout_defs split: if_splits)
  from py_int_less[OF this] show ?thesis by simp
qed

lemma far_above_no_hit:
  assumes "e_y e + enemy_spd s < 409" and "r_top car = 492" and "r_height car = 84"
  shows "\<not> hits car e s"
proof -
  have "py_int (e_y e + enemy_spd s) < 409" using py_int_le[of _ 409] assms(1) by simp
  then show ?thesis using assms(2,3)
    by (auto simp: hits_def colliderect_def Rect_def layout_defs)
qed

lemma enemy_body_sconst:
  "enemy_body car e (s, sconst c) = (r, s', g') \<Longrightarrow> g' = sconst c"
  by (auto simp: enemy_body_def Let_def explode_def dest: explode_loop_sconst
           split: prod.splits if_splits)

subsection \<open>The loop over the enemies\<close>

text \<open>An invariant of the loop body is an invariant of the loop.\<close>

lemma update_enemies_invariant:
  assumes "update_enemies car es sg = (kept, sg')"
    and "P sg"
    and "\<And>e sg r sg1. P sg \<Longrightarrow> enemy_body car e sg = (r, sg1) \<Longrightarrow> P sg1"
  shows "P sg'"
  using assms(1,2)
proof (induction es arbitrary: sg kept)
  case Nil
  then show ?case by simp
next
  case (Cons e es)
  obtain r sg1 where b: "enemy_body car e sg = (r, sg1)" by (metis prod.exhaust)
  obtain k sg2 where u: "update_enemies car es sg1 = (k, sg2)" by (metis prod.exhaust)
  have "P sg1" using assms(3)[OF Cons.prems(2) b] .
  moreover have "sg2 = sg'" using Cons.prems(1) b u by (simp split: prod.splits)
  ultimately show ?case using Cons.IH[of sg1 k] u by simp
qed

lemma update_enemies_invariant_set:
  assumes "update_enemies car es sg = (kept, sg')"
    and "P sg"
    and "\<And>e sg r sg1. e \<in> set es \<Longrightarrow> P sg \<Longrightarrow> enemy_body car e sg = (r, sg1) \<Longrightarrow> P sg1"
  shows "P sg'"
  using assms
proof (induction es arbitrary: sg kept)
  case Nil
  then show ?case by simp
next
  case (Cons e es)
  obtain r sg1 where b: "enemy_body car e sg = (r, sg1)" by (metis prod.exhaust)
  obtain k sg2 where u: "update_enemies car es sg1 = (k, sg2)" by (metis prod.exhaust)
  have p1: "P sg1" using Cons.prems(3)[OF _ Cons.prems(2) b] by simp
  have "sg2 = sg'" using Cons.prems(1) b u by (simp split: prod.splits)
  with u have u': "update_enemies car es sg1 = (k, sg')" by simp
  show ?case
  proof (rule Cons.IH[OF u' p1])
    fix e' sg r sg1
    assume "e' \<in> set es" "P sg" "enemy_body car e' sg = (r, sg1)"
    then show "P sg1" using Cons.prems(3)[of e' sg r sg1] by simp
  qed
qed

lemma update_enemies_length:
  "update_enemies car es sg = (kept, sg') \<Longrightarrow> length kept \<le> length es"
proof (induction es arbitrary: sg kept sg')
  case Nil
  then show ?case by simp
next
  case (Cons e es)
  obtain e' rm sg1 where b: "enemy_body car e sg = ((e', rm), sg1)"
    by (metis prod.exhaust)
  obtain k sg2 where r: "update_enemies car es sg1 = (k, sg2)"
    by (metis prod.exhaust)
  from Cons.IH[OF r] have "length k \<le> length es" .
  moreover from Cons.prems b r have "kept = (if rm then k else e' # k)" by simp
  ultimately show ?case by simp
qed

lemma update_enemies_frame:
  assumes "update_enemies car es (s, g) = (kept, s', g')"
  shows "car_y s' = car_y s \<and> spawn_cd s' = spawn_cd s \<and> enemies s' = enemies s
       \<and> hand_x s' = hand_x s \<and> car_x_px s' = car_x_px s \<and> car_lane s' = car_lane s
       \<and> tick s' = tick s \<and> dash_off s' = dash_off s"
proof -
  let ?P = "\<lambda>sg. car_y (fst sg) = car_y s \<and> spawn_cd (fst sg) = spawn_cd s
       \<and> enemies (fst sg) = enemies s
       \<and> hand_x (fst sg) = hand_x s \<and> car_x_px (fst sg) = car_x_px s \<and> car_lane (fst sg) = car_lane s
       \<and> tick (fst sg) = tick s \<and> dash_off (fst sg) = dash_off s"
  have "?P (s', g')"
  proof (rule update_enemies_invariant[OF assms, where P = ?P])
    show "?P (s, g)" by simp
  next
    fix e sg r sg1
    assume p: "?P sg" and b: "enemy_body car e sg = (r, sg1)"
    from b have "enemy_body car e (fst sg, snd sg) = (r, fst sg1, snd sg1)" by simp
    from enemy_body_frame[OF this] p show "?P sg1" by simp
  qed
  then show ?thesis by simp
qed

lemma update_enemies_account:
  assumes "update_enemies car es (s, g) = (kept, s', g')"
  shows "score s \<le> score s' \<and> lives s' \<le> lives s
       \<and> int (length es) = int (length kept) + (score s' - score s) + (lives s - lives s')"
  using assms
proof (induction es arbitrary: s g kept)
  case Nil
  then show ?case by simp
next
  case (Cons e es)
  obtain e' rm s1 g1 where b: "enemy_body car e (s, g) = ((e', rm), s1, g1)"
    by (metis prod.exhaust)
  obtain k s2 g2 where u: "update_enemies car es (s1, g1) = (k, s2, g2)"
    by (metis prod.exhaust)
  from Cons.prems b u have eq: "kept = (if rm then k else e' # k)" "s2 = s'" "g2 = g'" by simp_all
  from u eq have u': "update_enemies car es (s1, g1) = (k, s', g')" by simp
  from enemy_body_account[OF b] Cons.IH[OF u'] eq(1) show ?case by (auto split: if_splits)
qed

lemma update_enemies_speed:
  assumes "update_enemies car es (s, g) = (kept, s', g')" and "enemy_spd s \<le> MAX_SPEED"
  shows "enemy_spd s' = min MAX_SPEED (enemy_spd s + real_of_int (score s' div 8 - score s div 8) / 2)
       \<and> score s \<le> score s'"
proof -
  let ?P = "\<lambda>sg. enemy_spd (fst sg) =
               min MAX_SPEED (enemy_spd s + real_of_int (score (fst sg) div 8 - score s div 8) / 2)
             \<and> score s \<le> score (fst sg)"
  have "?P (s', g')"
  proof (rule update_enemies_invariant[OF assms(1), where P = ?P])
    show "?P (s, g)" using assms(2) by simp
  next
    fix e sg r sg1
    assume p: "?P sg" and b: "enemy_body car e sg = (r, sg1)"
    obtain t h where sg: "sg = (t, h)" by (cases sg)
    obtain t1 h1 where sg1: "sg1 = (t1, h1)" by (cases sg1)
    obtain e' rm where r: "r = (e', rm)" by (cases r)
    from b have b': "enemy_body car e (t, h) = ((e', rm), t1, h1)" by (simp add: sg sg1 r)
    from p have pt: "enemy_spd t = min MAX_SPEED (enemy_spd s + real_of_int (score t div 8 - score s div 8) / 2)"
      and st: "score s \<le> score t" by (simp_all add: sg)
    have le: "enemy_spd t \<le> MAX_SPEED" using pt by simp
    have acc: "score t \<le> score t1" using enemy_body_account[OF b'] by simp
    have y: "0 \<le> real_of_int (score t1 div 8 - score t div 8) / 2"
      using acc by (simp add: zdiv_mono1)
    have "enemy_spd t1 = min MAX_SPEED (enemy_spd t + real_of_int (score t1 div 8 - score t div 8) / 2)"
      using enemy_body_speed[OF b' le] by simp
    also have "\<dots> = min 18 (min 18 (enemy_spd s + real_of_int (score t div 8 - score s div 8) / 2)
                 + real_of_int (score t1 div 8 - score t div 8) / 2)"
      by (subst pt) (simp only: MAX_SPEED_def)
    also have "\<dots> = min 18 (enemy_spd s + (real_of_int (score t div 8 - score s div 8) / 2
                 + real_of_int (score t1 div 8 - score t div 8) / 2))"
      by (rule min_cap_twice[OF y])
    also have "\<dots> = min MAX_SPEED (enemy_spd s + real_of_int (score t1 div 8 - score s div 8) / 2)"
      by (simp only: half_diff_add MAX_SPEED_def)
    finally have "enemy_spd t1 = min MAX_SPEED (enemy_spd s + real_of_int (score t1 div 8 - score s div 8) / 2)" .
    moreover have "score s \<le> score t1" using st acc by simp
    ultimately show "?P sg1" by (simp add: sg1)
  qed
  then show ?thesis by simp
qed

text \<open>Before the particle section of a pass, every particle is in flight or has just been created.\<close>

lemma update_enemies_particles:
  assumes "update_enemies car es (s, g) = (kept, s', g')"
  shows "\<exists>added. particles s' = particles s @ added
           \<and> (\<forall>p\<in>set added. p_life p = p_max_life p \<and> 25 \<le> p_life p \<and> p_life p \<le> 50)"
proof -
  let ?P = "\<lambda>sg. \<exists>added. particles (fst sg) = particles s @ added
           \<and> (\<forall>p\<in>set added. p_life p = p_max_life p \<and> 25 \<le> p_life p \<and> p_life p \<le> 50)"
  have "?P (s', g')"
  proof (rule update_enemies_invariant[OF assms, where P = ?P])
    show "?P (s, g)" by simp
  next
    fix e sg r sg1
    assume p: "?P sg" and b: "enemy_body car e sg = (r, sg1)"
    obtain t h where sg: "sg = (t, h)" by (cases sg)
    obtain t1 h1 where sg1: "sg1 = (t1, h1)" by (cases sg1)
    from p obtain added where a: "particles t = particles s @ added"
      "\<forall>p\<in>set added. p_life p = p_max_life p \<and> 25 \<le> p_life p \<and> p_life p \<le> 50"
      by (auto simp: sg)
    from b have "enemy_body car e (t, h) = (r, t1, h1)" by (simp add: sg sg1)
    then have "\<exists>added. particles t1 = particles s @ added
           \<and> (\<forall>p\<in>set added. p_life p = p_max_life p \<and> 25 \<le> p_life p \<and> p_life p \<le> 50)"
    proof (cases rule: enemy_body_cases)
      case (hit new)
      have "particles t1 = particles s @ (added @ new)" using hit(3) a(1) by simp
      moreover have "\<forall>p\<in>set (added @ new). p_life p = p_max_life p \<and> 25 \<le> p_life p \<and> p_life p \<le> 50"
        using a(2) hit(5) by (auto simp: fresh_def)
      ultimately show ?thesis by blast
    next
      case leave
      then show ?thesis using a by auto
    next
      case keep
      then show ?thesis using a by auto
    qed
    then show "?P sg1" by (simp add: sg1)
  qed
  then show ?thesis by simp
qed

text \<open>When no enemy leaves the window, the loop changes neither score nor speed.\<close>

lemma update_enemies_no_leave:
  assumes up: "update_enemies car es (s, g) = (kept, s', g')"
    and far: "\<forall>e\<in>set es. \<not> leaves e s"
  shows "enemy_spd s' = enemy_spd s \<and> score s' = score s"
proof -
  let ?P = "\<lambda>sg. enemy_spd (fst sg) = enemy_spd s \<and> score (fst sg) = score s"
  have "?P (s', g')"
  proof (rule update_enemies_invariant_set[OF up, where P = ?P])
    show "?P (s, g)" by simp
  next
    fix e sg r sg1
    assume e: "e \<in> set es" and p: "?P sg" and b: "enemy_body car e sg = (r, sg1)"
    obtain t h where sg: "sg = (t, h)" by (cases sg)
    obtain t1 h1 where sg1: "sg1 = (t1, h1)" by (cases sg1)
    from p have pt: "enemy_spd t = enemy_spd s" "score t = score s" by (simp_all add: sg)
    from far e pt(1) have nl: "\<not> leaves e t" by (simp add: leaves_def)
    from b have "enemy_body car e (t, h) = (r, t1, h1)" by (simp add: sg sg1)
    then have "enemy_spd t1 = enemy_spd t \<and> score t1 = score t"
      using nl by (cases rule: enemy_body_cases) simp_all
    with pt show "?P sg1" by (simp add: sg1)
  qed
  then show ?thesis by simp
qed

text \<open>When no enemy hits the car or leaves the window, the loop only moves the enemies.\<close>

lemma update_enemies_quiet:
  assumes "\<forall>e\<in>set es. \<not> hits car e s \<and> \<not> leaves e s"
  shows "update_enemies car es (s, g) = (map (\<lambda>e. moved e (enemy_spd s)) es, s, g)"
  using assms
proof (induction es)
  case Nil
  then show ?case by simp
next
  case (Cons e es)
  then have "enemy_body car e (s, g) = ((moved e (enemy_spd s), False), s, g)"
    by (simp add: enemy_body_keep)
  with Cons show ?case by simp
qed

text \<open>The loop over a list is the loop over its first part followed by the loop over the rest.\<close>

lemma update_enemies_append:
  "update_enemies car (xs @ ys) sg =
     (case update_enemies car xs sg of (kx, sg1) \<Rightarrow>
      case update_enemies car ys sg1 of (ky, sg2) \<Rightarrow> (kx @ ky, sg2))"
  by (induction xs arbitrary: sg) (auto split: prod.splits)

subsection \<open>The sections of one pass\<close>

lemma spawn_enemies_effect:
  assumes "spawn_enemies (s, g) = (s', g')"
  shows "score s' = score s \<and> lives s' = lives s \<and> enemy_spd s' = enemy_spd s
       \<and> game_over s' = game_over s \<and> go_timer s' = go_timer s \<and> particles s' = particles s
       \<and> car_y s' = car_y s \<and> car_x_px s' = car_x_px s \<and> hand_x s' = hand_x s
       \<and> car_lane s' = car_lane s \<and> tick s' = tick s \<and> dash_off s' = dash_off s"
    and "\<not> spawns s \<Longrightarrow> enemies s' = enemies s \<and> spawn_cd s' = spawn_cd s - 1 \<and> g' = g"
    and "spawns s \<Longrightarrow> \<exists>e jit. enemies s' = enemies s @ [e] \<and> e_y e = - real_of_int ENEMY_H
            \<and> - 8 \<le> jit \<and> jit \<le> 8 \<and> spawn_cd s' = max 25 (70 - score s div 5) + jit"
proof -
  show "score s' = score s \<and> lives s' = lives s \<and> enemy_spd s' = enemy_spd s
       \<and> game_over s' = game_over s \<and> go_timer s' = go_timer s \<and> particles s' = particles s
       \<and> car_y s' = car_y s \<and> car_x_px s' = car_x_px s \<and> hand_x s' = hand_x s
       \<and> car_lane s' = car_lane s \<and> tick s' = tick s \<and> dash_off s' = dash_off s"
    using assms by (auto simp: spawn_enemies_def Let_def split: if_splits prod.splits)
  show "\<not> spawns s \<Longrightarrow> enemies s' = enemies s \<and> spawn_cd s' = spawn_cd s - 1 \<and> g' = g"
    using assms by (auto simp: spawn_enemies_def spawns_def Let_def split: if_splits prod.splits)
  show "\<exists>e jit. enemies s' = enemies s @ [e] \<and> e_y e = - real_of_int ENEMY_H
            \<and> - 8 \<le> jit \<and> jit \<le> 8 \<and> spawn_cd s' = max 25 (70 - score s div 5) + jit"
    if sp: "spawns s"
  proof -
    obtain lane g1 where l: "randint 0 (LANE_COUNT - 1) g = (lane, g1)" by (metis prod.exhaust)
    obtain pal g2 where p: "choice ENEMY_PALETTES g1 = (pal, g2)" by (metis prod.exhaust)
    obtain jit g3 where j: "randint (- 8) 8 g2 = (jit, g3)" by (metis prod.exhaust)
    have jr: "- 8 \<le> jit \<and> jit \<le> 8" using randint_range[of "- 8" 8 g2] j by simp
    have "s' = s\<lparr>spawn_cd := spawn_cd s - 1,
                 enemies := enemies s @ [\<lparr>e_cx = LANE_X ! nat lane, e_y = - real_of_int ENEMY_H, e_pal = pal\<rparr>],
                 spawn_cd := max 25 (70 - score s div 5) + jit\<rparr>"
      using assms sp l p j by (simp add: spawn_enemies_def spawns_def Let_def)
    then have "enemies s' = enemies s @ [\<lparr>e_cx = LANE_X ! nat lane, e_y = - real_of_int ENEMY_H, e_pal = pal\<rparr>]"
      and "spawn_cd s' = max 25 (70 - score s div 5) + jit" by simp_all
    with jr show ?thesis by (intro exI[of _ "\<lparr>e_cx = LANE_X ! nat lane, e_y = - real_of_int ENEMY_H, e_pal = pal\<rparr>"] exI[of _ jit]) simp
  qed
qed

lemma spawn_enemies_length:
  "spawn_enemies (s, g) = (s', g') \<Longrightarrow> int (length (enemies s)) \<le> MAX_ENEMIES \<Longrightarrow>
     int (length (enemies s')) \<le> MAX_ENEMIES"
  by (auto simp: spawn_enemies_def Let_def split: if_splits prod.splits)

text \<open>The pieces of one pass while the game runs.\<close>

lemma step_playing:
  assumes "\<not> game_over (sess m)"
  obtains sa sb gb kept sc gc where
    "score sa = score (sess m)" "lives sa = lives (sess m)" "enemies sa = enemies (sess m)"
    "enemy_spd sa = enemy_spd (sess m)" "spawn_cd sa = spawn_cd (sess m)"
    "\<not> game_over sa" "go_timer sa = go_timer (sess m)" "particles sa = particles (sess m)"
    "car_y sa = car_y (sess m)" "hand_x sa = seen_hand inp m"
    "car_x_px sa = lerp (car_x_px (sess m))
        (real_of_int (LANE_X ! hand_lane (seen_hand inp m)
            (if (cam_tick m + 1) mod CAM_SKIP = 0 \<and> ret2 inp then shape_w inp else frame_w m)
          - CAR_W div 2)) 0.25"
    "spawn_enemies (sa, rng m) = (sb, gb)"
    "update_enemies (Rect (py_int (car_x_px sa)) (car_y sa) CAR_W CAR_H) (enemies sb) (sb, gb)
       = (kept, sc, gc)"
    "sess (step inp m) = sc\<lparr>enemies := kept, particles := particles_step (particles sc)\<rparr>"
proof -
  define w where "w = (if (cam_tick m + 1) mod CAM_SKIP = 0 \<and> ret2 inp then shape_w inp else frame_w m)"
  define s1 where "s1 = (if (cam_tick m + 1) mod CAM_SKIP = 0 \<and> ret2 inp
        then (sess m)\<lparr>tick := tick (sess m) + 1, hand_x := hand inp\<rparr>
        else (sess m)\<lparr>tick := tick (sess m) + 1\<rparr>)"
  define s2 where "s2 = s1\<lparr>dash_off := py_fmod (dash_off s1 + enemy_spd s1 * 0.6) (real_of_int (DASH_LEN + DASH_GAP))\<rparr>"
  define sa where "sa = s2\<lparr>car_lane := hand_lane (hand_x s2) w,
     car_x_px := lerp (car_x_px s2) (real_of_int (LANE_X ! hand_lane (hand_x s2) w - CAR_W div 2)) 0.25\<rparr>"
  obtain sb gb where sp: "spawn_enemies (sa, rng m) = (sb, gb)" by (metis prod.exhaust)
  obtain kept sc gc where up:
    "update_enemies (Rect (py_int (car_x_px sa)) (car_y sa) CAR_W CAR_H) (enemies sb) (sb, gb) = (kept, sc, gc)"
    by (metis prod.exhaust)
  have g2: "\<not> game_over s2" using assms by (simp add: s2_def s1_def)
  have pl: "playing w (s2, rng m) = (sc\<lparr>enemies := kept\<rparr>, gc)"
    using sp up by (simp add: playing_def Let_def sa_def)
  have st: "sess (step inp m) = sc\<lparr>enemies := kept, particles := particles_step (particles sc)\<rparr>"
    using pl g2 unfolding step_def Let_def s2_def s1_def w_def by (auto split: if_splits)
  have h: "hand_x s2 = seen_hand inp m" by (simp add: s2_def s1_def seen_hand_def)
  have f: "score sa = score (sess m)" "lives sa = lives (sess m)" "enemies sa = enemies (sess m)"
    "enemy_spd sa = enemy_spd (sess m)" "spawn_cd sa = spawn_cd (sess m)"
    "\<not> game_over sa" "go_timer sa = go_timer (sess m)" "particles sa = particles (sess m)"
    "car_y sa = car_y (sess m)" "hand_x sa = seen_hand inp m"
    using assms by (simp_all add: sa_def s2_def s1_def seen_hand_def)
  have x: "car_x_px sa = lerp (car_x_px (sess m))
        (real_of_int (LANE_X ! hand_lane (seen_hand inp m) w - CAR_W div 2)) 0.25"
    by (simp add: sa_def h) (simp add: s2_def s1_def)
  show ?thesis using that[OF f x[unfolded w_def] sp up st] .
qed

lemma step_game_over:
  assumes "game_over (sess m)"
  shows "restarts inp m \<Longrightarrow> sess (step inp m) = reset_state"
    and "\<not> restarts inp m \<Longrightarrow>
           score (sess (step inp m)) = score (sess m) \<and> lives (sess (step inp m)) = lives (sess m)
         \<and> enemies (sess (step inp m)) = enemies (sess m)
         \<and> enemy_spd (sess (step inp m)) = enemy_spd (sess m)
         \<and> spawn_cd (sess (step inp m)) = spawn_cd (sess m)
         \<and> car_y (sess (step inp m)) = car_y (sess m)
         \<and> car_x_px (sess (step inp m)) = car_x_px (sess m)
         \<and> game_over (sess (step inp m))
         \<and> go_timer (sess (step inp m)) = (if 0 < go_timer (sess m) then go_timer (sess m) - 1 else go_timer (sess m))
         \<and> particles (sess (step inp m)) = particles_step (particles (sess m))"
proof -
  show "restarts inp m \<Longrightarrow> sess (step inp m) = reset_state"
    using assms
    by (auto simp: step_def Let_def game_over_screen_def particles_step_def reset_state_def
                   restarts_def seen_hand_def split: if_splits)
  show "\<not> restarts inp m \<Longrightarrow>
           score (sess (step inp m)) = score (sess m) \<and> lives (sess (step inp m)) = lives (sess m)
         \<and> enemies (sess (step inp m)) = enemies (sess m)
         \<and> enemy_spd (sess (step inp m)) = enemy_spd (sess m)
         \<and> spawn_cd (sess (step inp m)) = spawn_cd (sess m)
         \<and> car_y (sess (step inp m)) = car_y (sess m)
         \<and> car_x_px (sess (step inp m)) = car_x_px (sess m)
         \<and> game_over (sess (step inp m))
         \<and> go_timer (sess (step inp m)) = (if 0 < go_timer (sess m) then go_timer (sess m) - 1 else go_timer (sess m))
         \<and> particles (sess (step inp m)) = particles_step (particles (sess m))"
    using assms
    by (auto simp: step_def Let_def game_over_screen_def restarts_def seen_hand_def split: if_splits)
qed

lemma playing_length:
  assumes "playing w (s, g) = (s', g')" and "int (length (enemies s)) \<le> MAX_ENEMIES"
  shows "int (length (enemies s')) \<le> MAX_ENEMIES"
proof -
  define sa where "sa = s\<lparr>car_lane := hand_lane (hand_x s) w,
     car_x_px := lerp (car_x_px s) (real_of_int (LANE_X ! hand_lane (hand_x s) w - CAR_W div 2)) 0.25\<rparr>"
  obtain sb gb where sp: "spawn_enemies (sa, g) = (sb, gb)" by (metis prod.exhaust)
  obtain kept sc gc where up:
    "update_enemies (Rect (py_int (car_x_px sa)) (car_y sa) CAR_W CAR_H) (enemies sb) (sb, gb) = (kept, sc, gc)"
    by (metis prod.exhaust)
  have "enemies sa = enemies s" by (simp add: sa_def)
  with assms(2) spawn_enemies_length[OF sp] have "int (length (enemies sb)) \<le> MAX_ENEMIES" by simp
  moreover have "length kept \<le> length (enemies sb)" using update_enemies_length[OF up] .
  moreover have "s' = sc\<lparr>enemies := kept\<rparr>"
    using assms(1) sp up by (simp add: playing_def Let_def sa_def)
  ultimately show ?thesis by simp
qed

lemma step_length:
  assumes "int (length (enemies (sess m))) \<le> MAX_ENEMIES"
  shows "int (length (enemies (sess (step inp m)))) \<le> MAX_ENEMIES"
proof (cases "game_over (sess m)")
  case True
  then show ?thesis using assms
    by (auto simp: step_def Let_def game_over_screen_def reset_state_def MAX_ENEMIES_def)
next
  case False
  define s2 where "s2 = (if (cam_tick m + 1) mod CAM_SKIP = 0 \<and> ret2 inp
        then (sess m)\<lparr>tick := tick (sess m) + 1, hand_x := hand inp\<rparr>
        else (sess m)\<lparr>tick := tick (sess m) + 1\<rparr>)
      \<lparr>dash_off := py_fmod (dash_off (sess m) + enemy_spd (sess m) * 0.6) (real_of_int (DASH_LEN + DASH_GAP))\<rparr>"
  define w where "w = (if (cam_tick m + 1) mod CAM_SKIP = 0 \<and> ret2 inp then shape_w inp else frame_w m)"
  obtain s3 g3 where pl: "playing w (s2, rng m) = (s3, g3)" by (metis prod.exhaust)
  have e2: "enemies s2 = enemies (sess m)" and g2: "\<not> game_over s2"
    using False by (auto simp: s2_def)
  have "sess (step inp m) = s3\<lparr>particles := particles_step (particles s3)\<rparr>"
    using pl g2 unfolding step_def Let_def s2_def w_def by (auto split: if_splits)
  moreover have "int (length (enemies s3)) \<le> MAX_ENEMIES"
    using playing_length[OF pl] assms e2 by simp
  ultimately show ?thesis by simp
qed

lemma step_car_x:
  assumes "\<not> game_over (sess m)"
  shows "car_x_px (sess (step inp m)) = lerp (car_x_px (sess m)) (target_x inp m) (1 / 4)"
proof -
  from assms obtain sa sb gb kept sc gc where
    x: "car_x_px sa = lerp (car_x_px (sess m))
        (real_of_int (LANE_X ! hand_lane (seen_hand inp m)
            (if (cam_tick m + 1) mod CAM_SKIP = 0 \<and> ret2 inp then shape_w inp else frame_w m)
          - CAR_W div 2)) 0.25"
    and sp: "spawn_enemies (sa, rng m) = (sb, gb)"
    and up: "update_enemies (Rect (py_int (car_x_px sa)) (car_y sa) CAR_W CAR_H) (enemies sb) (sb, gb)
       = (kept, sc, gc)"
    and st: "sess (step inp m) = sc\<lparr>enemies := kept, particles := particles_step (particles sc)\<rparr>"
    by (rule step_playing[where inp = inp]) blast
  have "car_x_px (sess (step inp m)) = car_x_px sa"
    using st update_enemies_frame[OF up] spawn_enemies_effect(1)[OF sp] by simp
  with x show ?thesis by (simp add: target_x_def seen_width_def)
qed

lemma ex_play_step:
  "sess (step ex_cam ex_play) =
     reset_state\<lparr>score := 216, enemy_spd := 18, spawn_cd := 8, enemies := [], tick := 1,
                 hand_x := Some 100, car_lane := 0, car_x_px := 1279 / 4,
                 dash_off := 54 / 5\<rparr>"
  by (simp add: step_def ex_play_def ex_cam_def Let_def playing_def spawn_enemies_def
        enemy_body_def colliderect_def Rect_def py_int_def py_fmod_def hand_lane_def
        car_path_steps particles_step_def reset_state_def LANE_X_eval layout_defs)

lemma ex_cross_step:
  "sess (step ex_cam ex_cross) =
     reset_state\<lparr>score := 8, enemy_spd := 11 / 2, spawn_cd := 8, enemies := [], tick := 1,
                 hand_x := Some 100, car_lane := 0, car_x_px := 1279 / 4,
                 dash_off := 3\<rparr>"
  by (simp add: step_def ex_cross_def ex_cam_def Let_def playing_def spawn_enemies_def
        enemy_body_def colliderect_def Rect_def py_int_def py_fmod_def hand_lane_def
        car_path_steps particles_step_def reset_state_def LANE_X_eval layout_defs)

lemma ex_stall_step:
  "sess (step ex_cam ex_stall) =
     reset_state\<lparr>spawn_cd := 69, tick := 1, hand_x := Some 100, car_lane := 0,
                 car_x_px := 160 + 1 / 2 ^ 44, dash_off := 3\<rparr>"
  by (simp add: step_def ex_stall_def ex_cam_def Let_def playing_def spawn_enemies_def
        py_int_def py_fmod_def hand_lane_def car_path_steps
        particles_step_def reset_state_def LANE_X_eval layout_defs)

text \<open>A pass while the game runs is \<open>before_loop\<close>, the loop, and the particle section.\<close>

lemma before_loop_effect:
  assumes "before_loop inp m = (car, sb, gb)"
  shows "lives sb = lives (sess m) \<and> score sb = score (sess m) \<and> enemy_spd sb = enemy_spd (sess m)
       \<and> particles sb = particles (sess m) \<and> game_over sb = game_over (sess m)
       \<and> r_top car = car_y (sess m) \<and> r_height car = CAR_H"
proof -
  define s2 where "s2 = (if (cam_tick m + 1) mod CAM_SKIP = 0 \<and> ret2 inp
        then (sess m)\<lparr>tick := tick (sess m) + 1, hand_x := hand inp\<rparr>
        else (sess m)\<lparr>tick := tick (sess m) + 1\<rparr>)
      \<lparr>dash_off := py_fmod (dash_off (sess m) + enemy_spd (sess m) * 0.6) (real_of_int (DASH_LEN + DASH_GAP))\<rparr>"
  define w where "w = (if (cam_tick m + 1) mod CAM_SKIP = 0 \<and> ret2 inp then shape_w inp else frame_w m)"
  define sa where "sa = s2\<lparr>car_lane := hand_lane (hand_x s2) w,
     car_x_px := lerp (car_x_px s2) (real_of_int (LANE_X ! hand_lane (hand_x s2) w - CAR_W div 2)) 0.25\<rparr>"
  have bl: "before_loop inp m = (Rect (py_int (car_x_px sa)) (car_y sa) CAR_W CAR_H, spawn_enemies (sa, rng m))"
    unfolding before_loop_def Let_def sa_def s2_def w_def by (auto split: if_splits)
  with assms have car: "car = Rect (py_int (car_x_px sa)) (car_y sa) CAR_W CAR_H"
    and sp: "spawn_enemies (sa, rng m) = (sb, gb)" by simp_all
  have f: "lives sa = lives (sess m)" "score sa = score (sess m)" "enemy_spd sa = enemy_spd (sess m)"
    "particles sa = particles (sess m)" "game_over sa = game_over (sess m)" "car_y sa = car_y (sess m)"
    by (simp_all add: sa_def s2_def)
  from spawn_enemies_effect(1)[OF sp] f car show ?thesis by (simp add: Rect_def)
qed

lemma step_before_loop:
  assumes "\<not> game_over (sess m)"
    and "before_loop inp m = (car, sb, gb)"
    and "update_enemies car (enemies sb) (sb, gb) = (kept, sc, gc)"
  shows "step inp m =
           \<lparr>sess = sc\<lparr>enemies := kept, particles := particles_step (particles sc)\<rparr>,
            cam_tick = cam_tick m + 1, frame_w = seen_width inp m, rng = gc\<rparr>"
  using assms
  unfolding step_def before_loop_def playing_def Let_def seen_width_def
  by (auto split: if_splits prod.splits)

subsection \<open>The example run\<close>

text \<open>
  One pass of the example run: nothing happens, an enemy is spawned, or the lowest enemy
  hits the car.
\<close>

lemma lerp_rest: "lerp 373 373 (1 / 4) = 373"
  using rd_int[of 373] by (simp add: lerp_def)

lemma ex_before_loop:
  assumes "ex_state m l c ys ps" and "0 < l"
  shows "1 < c \<Longrightarrow>
           \<exists>sb. before_loop ex_idle m = (Rect 373 492 CAR_W CAR_H, sb, sconst 1)
              \<and> enemies sb = map ex_lane1 ys \<and> spawn_cd sb = c - 1
              \<and> lives sb = l \<and> score sb = 0 \<and> enemy_spd sb = 5 \<and> \<not> game_over sb
              \<and> particles sb = ps \<and> hand_x sb = None \<and> car_x_px sb = 373 \<and> car_y sb = 492"
    and "c = 1 \<Longrightarrow> length ys < 12 \<Longrightarrow>
           \<exists>sb. before_loop ex_idle m = (Rect 373 492 CAR_W CAR_H, sb, sconst 1)
              \<and> enemies sb = map ex_lane1 (ys @ [- 84]) \<and> spawn_cd sb = 63
              \<and> lives sb = l \<and> score sb = 0 \<and> enemy_spd sb = 5 \<and> \<not> game_over sb
              \<and> particles sb = ps \<and> hand_x sb = None \<and> car_x_px sb = 373 \<and> car_y sb = 492"
  using assms
  by (simp_all add: ex_state_def before_loop_def Let_def ex_idle_def hand_lane_def lerp_rest
        spawn_enemies_def randint_def choice_def ENEMY_PALETTES_def ex_lane1_def py_int_def
        LANE_X_eval layout_defs)

lemma ex_car: "r_top (Rect 373 492 CAR_W CAR_H) = 492" "r_height (Rect 373 492 CAR_W CAR_H) = 84"
  by (simp_all add: Rect_def CAR_H_def)

lemma ex_far:
  assumes "\<forall>y\<in>set ys. y + 5 < 409" and "enemy_spd s = 5"
  shows "\<forall>e\<in>set (map ex_lane1 ys). \<not> hits (Rect 373 492 CAR_W CAR_H) e s \<and> \<not> leaves e s"
proof
  fix e assume "e \<in> set (map ex_lane1 ys)"
  then obtain y where y: "y \<in> set ys" "e = ex_lane1 y" by auto
  with assms have f: "e_y e + enemy_spd s < 409" by (simp add: ex_lane1_def)
  from far_above_no_hit[OF f ex_car] f
  show "\<not> hits (Rect 373 492 CAR_W CAR_H) e s \<and> \<not> leaves e s"
    by (simp add: leaves_def WIN_H_def)
qed

lemma ex_moved: "map (\<lambda>e. moved e v) (map ex_lane1 ys) = map ex_lane1 (map (\<lambda>y. y + v) ys)"
  by (simp add: moved_def ex_lane1_def)

lemma ex_quiet:
  assumes st: "ex_state m l c ys ps" and l: "0 < l" and c: "1 < c"
    and far: "\<forall>y\<in>set ys. y + 5 < 409"
  shows "ex_state (step ex_idle m) l (c - 1) (map (\<lambda>y. y + 5) ys) (particles_step ps)"
proof -
  have run: "\<not> game_over (sess m)" using st l by (simp add: ex_state_def)
  from ex_before_loop(1)[OF st l c] obtain sb where
    bl: "before_loop ex_idle m = (Rect 373 492 CAR_W CAR_H, sb, sconst 1)"
    and sb: "enemies sb = map ex_lane1 ys" "spawn_cd sb = c - 1" "lives sb = l" "score sb = 0"
      "enemy_spd sb = 5" "\<not> game_over sb" "particles sb = ps" "hand_x sb = None"
      "car_x_px sb = 373" "car_y sb = 492"
    by blast
  have up: "update_enemies (Rect 373 492 CAR_W CAR_H) (enemies sb) (sb, sconst 1)
      = (map ex_lane1 (map (\<lambda>y. y + 5) ys), sb, sconst 1)"
    unfolding sb(1) using update_enemies_quiet[OF ex_far[OF far sb(5)], of "sconst 1"]
    by (simp only: ex_moved sb(5))
  show ?thesis
    unfolding step_before_loop[OF run bl up]
    using sb l by (simp add: ex_state_def seen_width_def ex_idle_def) (use st in \<open>simp add: ex_state_def\<close>)
qed

lemma ex_spawn:
  assumes st: "ex_state m l 1 ys ps" and l: "0 < l" and n: "length ys < 12"
    and far: "\<forall>y\<in>set ys. y + 5 < 409"
  shows "ex_state (step ex_idle m) l 63 (map (\<lambda>y. y + 5) ys @ [- 79]) (particles_step ps)"
proof -
  have run: "\<not> game_over (sess m)" using st l by (simp add: ex_state_def)
  from ex_before_loop(2)[OF st l refl n] obtain sb where
    bl: "before_loop ex_idle m = (Rect 373 492 CAR_W CAR_H, sb, sconst 1)"
    and sb: "enemies sb = map ex_lane1 (ys @ [- 84])" "spawn_cd sb = 63" "lives sb = l" "score sb = 0"
      "enemy_spd sb = 5" "\<not> game_over sb" "particles sb = ps" "hand_x sb = None"
      "car_x_px sb = 373" "car_y sb = 492"
    by blast
  have far': "\<forall>y\<in>set (ys @ [- 84]). y + 5 < 409" using far by simp
  have up: "update_enemies (Rect 373 492 CAR_W CAR_H) (enemies sb) (sb, sconst 1)
      = (map ex_lane1 (map (\<lambda>y. y + 5) (ys @ [- 84])), sb, sconst 1)"
    unfolding sb(1) using update_enemies_quiet[OF ex_far[OF far' sb(5)], of "sconst 1"]
    by (simp only: ex_moved sb(5))
  show ?thesis
    unfolding step_before_loop[OF run bl up]
    using sb l by (simp add: ex_state_def seen_width_def ex_idle_def) (use st in \<open>simp add: ex_state_def\<close>)
qed

lemma ex_hit:
  assumes st: "ex_state m l c (y # ys) ps" and l: "0 < l" and c: "1 < c"
    and y: "409 \<le> y + 5" "y + 5 < 576"
    and far: "\<forall>y\<in>set ys. y + 5 < 409"
  shows "\<exists>new. length new = 40 \<and> (\<forall>p\<in>set new. fresh 399 (py_int (y + 47)) p)
           \<and> ex_state (step ex_idle m) (l - 1) (c - 1) (map (\<lambda>y. y + 5) ys) (particles_step (ps @ new))"
proof -
  let ?car = "Rect 373 492 CAR_W CAR_H"
  have run: "\<not> game_over (sess m)" using st l by (simp add: ex_state_def)
  from ex_before_loop(1)[OF st l c] obtain sb where
    bl: "before_loop ex_idle m = (?car, sb, sconst 1)"
    and sb: "enemies sb = map ex_lane1 (y # ys)" "spawn_cd sb = c - 1" "lives sb = l" "score sb = 0"
      "enemy_spd sb = 5" "\<not> game_over sb" "particles sb = ps" "hand_x sb = None"
      "car_x_px sb = 373" "car_y sb = 492"
    by blast
  have fl: "409 \<le> \<lfloor>y + 5\<rfloor>" "\<lfloor>y + 5\<rfloor> < 576" using y by (simp_all add: le_floor_iff floor_less_iff)
  have h: "hits ?car (ex_lane1 y) sb"
    using fl y by (simp add: hits_def colliderect_def Rect_def ex_lane1_def sb(5) py_int_def layout_defs)
  from enemy_body_hit[OF h, of "sconst 1"] obtain new g' s' where
    b: "enemy_body ?car (ex_lane1 y) (sb, sconst 1) = ((moved (ex_lane1 y) (enemy_spd sb), True), s', g')"
    and f: "particles s' = particles sb @ new" "length new = 40"
      "\<forall>p\<in>set new. fresh (e_cx (ex_lane1 y)) (py_int (e_y (ex_lane1 y) + enemy_spd sb + real_of_int (ENEMY_H div 2))) p"
      "lives s' = lives sb - 1" "score s' = score sb" "enemy_spd s' = enemy_spd sb"
      "game_over s' = (lives sb - 1 \<le> 0 \<or> game_over sb)"
      "car_y s' = car_y sb" "spawn_cd s' = spawn_cd sb"
      "hand_x s' = hand_x sb" "car_x_px s' = car_x_px sb"
    by blast
  have g': "g' = sconst 1" using enemy_body_sconst[OF b] .
  have v: "enemy_spd s' = 5" using f(6) sb(5) by simp
  have rest: "update_enemies ?car (map ex_lane1 ys) (s', g') = (map ex_lane1 (map (\<lambda>y. y + 5) ys), s', g')"
    using update_enemies_quiet[OF ex_far[OF far v], of g'] by (simp only: ex_moved v)
  have up: "update_enemies ?car (enemies sb) (sb, sconst 1)
      = (map ex_lane1 (map (\<lambda>y. y + 5) ys), s', sconst 1)"
    unfolding sb(1) using b rest g' by simp
  have fr: "\<forall>p\<in>set new. fresh 399 (py_int (y + 47)) p"
    using f(3) by (simp add: ex_lane1_def sb(5) ENEMY_H_def add.assoc)
  have "ex_state (step ex_idle m) (l - 1) (c - 1) (map (\<lambda>y. y + 5) ys) (particles_step (ps @ new))"
    unfolding step_before_loop[OF run bl up]
    using sb f l by (simp add: ex_state_def seen_width_def ex_idle_def) (use st in \<open>auto simp add: ex_state_def\<close>)
  with f(2) fr show ?thesis by blast
qed

lemma ex_quiet_passes:
  assumes st: "ex_state m l c ys ps" and l: "0 < l" and c: "int k < c"
    and far: "\<forall>y\<in>set ys. y + 5 * real k < 409"
  shows "ex_state ((step ex_idle ^^ k) m) l (c - int k) (map (\<lambda>y. y + 5 * real k) ys)
           ((particles_step ^^ k) ps)"
  using c far
proof (induction k)
  case 0
  then show ?case using st by simp
next
  case (Suc k)
  have far_k: "\<forall>y\<in>set ys. y + 5 * real k < 409" using Suc.prems(2) by fastforce
  have ih: "ex_state ((step ex_idle ^^ k) m) l (c - int k) (map (\<lambda>y. y + 5 * real k) ys)
           ((particles_step ^^ k) ps)"
    using Suc.IH far_k Suc.prems(1) by simp
  have c': "1 < c - int k" using Suc.prems(1) by simp
  have far': "\<forall>y\<in>set (map (\<lambda>y. y + 5 * real k) ys). y + 5 < 409"
    using Suc.prems(2) by (auto simp: algebra_simps)
  have m: "map (\<lambda>y. y + 5) (map (\<lambda>y. y + 5 * real k) ys) = map (\<lambda>y. y + 5 * real (Suc k)) ys"
    by (simp add: algebra_simps)
  from ex_quiet[OF ih l c' far'] show ?case
    by (simp add: m[symmetric] del: of_nat_Suc) (simp add: algebra_simps)
qed

text \<open>
  The run: the first enemy is spawned in pass 70 and hits the car in pass 168, the second
  in pass 231, the third in pass 294, which ends the game. The particles of an explosion
  are gone 50 passes later.
\<close>

lemma ex_run_add: "ex_run (n + k) = (step ex_idle ^^ k) (ex_run n)"
  unfolding ex_run_def by (subst add.commute) (simp add: funpow_add)

lemma ex_run_Suc: "ex_run (Suc n) = step ex_idle (ex_run n)"
  by (simp add: ex_run_def)

lemma reachable_ex_run: "reachable (ex_run n)"
  by (induction n) (simp_all add: ex_run_def reachable_initial reachable_step)

lemma ex_run_0: "ex_state (ex_run 0) 3 70 [] []"
  by (simp add: ex_run_def ex_state_def initial_def reset_state_def LANE_X_eval layout_defs)

lemma ex_run_167: "ex_state (ex_run 167) 3 29 [406, 91] []"
proof -
  have "ex_state (ex_run (0 + 69)) 3 1 [] []"
    unfolding ex_run_add using ex_quiet_passes[OF ex_run_0, of 69] by (simp add: particles_funpow_Nil)
  then have "ex_state (ex_run (Suc 69)) 3 63 [- 79] []"
    unfolding ex_run_Suc using ex_spawn[of "ex_run 69" 3 "[]" "[]"] by (simp add: particles_step_def)
  then have "ex_state (ex_run (70 + 62)) 3 1 [231] []"
    unfolding ex_run_add using ex_quiet_passes[of "ex_run 70" 3 63 "[- 79]" "[]" 62]
    by (simp add: particles_funpow_Nil)
  then have "ex_state (ex_run (Suc 132)) 3 63 [236, - 79] []"
    unfolding ex_run_Suc using ex_spawn[of "ex_run 132" 3 "[231]" "[]"] by (simp add: particles_step_def)
  then have "ex_state (ex_run (133 + 34)) 3 29 [406, 91] []"
    unfolding ex_run_add using ex_quiet_passes[of "ex_run 133" 3 63 "[236, - 79]" "[]" 34]
    by (simp add: particles_funpow_Nil)
  then show ?thesis by simp
qed

lemma ex_collide:
  assumes "ex_state m l 29 [406, 91] []" and "0 < l"
  shows "\<exists>new. length new = 40 \<and> (\<forall>p\<in>set new. fresh 399 453 p)
           \<and> ex_state (step ex_idle m) (l - 1) 28 [96] (particles_step new)"
  using ex_hit[OF assms] by (simp add: py_int_def)

lemma ex_recover:
  assumes st: "ex_state m l 28 [96] (particles_step new)" and l: "0 < l"
    and fr: "\<forall>p\<in>set new. fresh 399 453 p"
  shows "ex_state ((step ex_idle ^^ 50) m) l 41 [346, 31] []"
    and "ex_state ((step ex_idle ^^ 62) m) l 29 [406, 91] []"
proof -
  let ?P = particles_step
  have a: "ex_state ((step ex_idle ^^ 27) m) l 1 [231] ((?P ^^ 27) (?P new))"
    using ex_quiet_passes[OF st l, of 27] by simp
  have b: "ex_state (step ex_idle ((step ex_idle ^^ 27) m)) l 63 [236, - 79]
             (?P ((?P ^^ 27) (?P new)))"
    using ex_spawn[OF a l] by simp
  have c: "ex_state ((step ex_idle ^^ 22) (step ex_idle ((step ex_idle ^^ 27) m))) l 41 [346, 31]
             ((?P ^^ 22) (?P ((?P ^^ 27) (?P new))))"
    using ex_quiet_passes[OF b l, of 22] by simp
  have d: "ex_state ((step ex_idle ^^ 34) (step ex_idle ((step ex_idle ^^ 27) m))) l 29 [406, 91]
             ((?P ^^ 34) (?P ((?P ^^ 27) (?P new))))"
    using ex_quiet_passes[OF b l, of 34] by simp
  show "ex_state ((step ex_idle ^^ 50) m) l 41 [346, 31] []"
    using c unfolding funpow_join by (simp add: fresh_expire_next[OF fr])
  show "ex_state ((step ex_idle ^^ 62) m) l 29 [406, 91] []"
    using d unfolding funpow_join by (simp add: fresh_expire_next[OF fr])
qed

lemma ex_run_168:
  "\<exists>new. length new = 40 \<and> (\<forall>p\<in>set new. fresh 399 453 p)
      \<and> ex_state (ex_run 168) 2 28 [96] (particles_step new)"
  using ex_collide[OF ex_run_167] ex_run_Suc[of 167] by simp

lemma ex_run_230: "ex_state (ex_run 218) 2 41 [346, 31] []" "ex_state (ex_run 230) 2 29 [406, 91] []"
proof -
  from ex_run_168 obtain new where fr: "\<forall>p\<in>set new. fresh 399 453 p"
    and st: "ex_state (ex_run 168) 2 28 [96] (particles_step new)" by blast
  show "ex_state (ex_run 218) 2 41 [346, 31] []"
    using ex_recover(1)[OF st _ fr] ex_run_add[of 168 50] by simp
  show "ex_state (ex_run 230) 2 29 [406, 91] []"
    using ex_recover(2)[OF st _ fr] ex_run_add[of 168 62] by simp
qed

lemma ex_run_231:
  "\<exists>new. length new = 40 \<and> (\<forall>p\<in>set new. fresh 399 453 p)
      \<and> ex_state (ex_run 231) 1 28 [96] (particles_step new)"
  using ex_collide[OF ex_run_230(2)] ex_run_Suc[of 230] by simp

lemma ex_run_293: "ex_state (ex_run 293) 1 29 [406, 91] []"
proof -
  from ex_run_231 obtain new where fr: "\<forall>p\<in>set new. fresh 399 453 p"
    and st: "ex_state (ex_run 231) 1 28 [96] (particles_step new)" by blast
  show ?thesis
    using ex_recover(2)[OF st _ fr] ex_run_add[of 231 62] by simp
qed

lemma ex_run_294:
  "\<exists>new. length new = 40 \<and> (\<forall>p\<in>set new. fresh 399 453 p)
      \<and> ex_state (ex_run 294) 0 28 [96] (particles_step new)"
  using ex_collide[OF ex_run_293] ex_run_Suc[of 293] by simp

lemma ex_low_before_loop:
  "before_loop ex_idle ex_low =
     (Rect 373 550 CAR_W CAR_H,
      reset_state\<lparr>car_y := 550, spawn_cd := 8, enemies := [ex_enemy], tick := 1, dash_off := 3\<rparr>,
      sconst 0)"
  using lerp_rest
  by (simp add: before_loop_def ex_low_def ex_idle_def Let_def hand_lane_def spawn_enemies_def
        py_int_def py_fmod_def reset_state_def LANE_X_eval layout_defs)

subsection \<open>Lives\<close>

lemma spaced_moved: "spaced es \<Longrightarrow> spaced (map (\<lambda>e. moved e v) es)"
  by (simp add: spaced_def sorted_wrt_map apart_def[abs_def] moved_def)

lemma update_enemies_spaced:
  assumes "update_enemies car es (s, g) = (kept, s', g')"
    and "r_top car = 492" and "r_height car = 84"
    and "spaced es"
    and "5 \<le> enemy_spd s" and "enemy_spd s \<le> 18"
  shows "(\<exists>sub. kept = map (\<lambda>e. moved e (enemy_spd s')) sub \<and> set sub \<subseteq> set es \<and> spaced sub)
       \<and> (lives s' = lives s \<and> game_over s' = game_over s
          \<or> lives s' = lives s - 1 \<and> game_over s' = (lives s - 1 \<le> 0 \<or> game_over s))"
  using assms
proof (induction es arbitrary: s g kept)
  case Nil
  then have "kept = []" "s' = s" by simp_all
  then show ?case by (simp add: spaced_def)
next
  case (Cons e es)
  note car = Cons.prems(2,3)
  let ?v = "enemy_spd s"
  have sp_e: "\<forall>r\<in>set es. e_y r + 187 \<le> e_y e" and sp_es: "spaced es"
    using Cons.prems(4) by (simp_all add: spaced_def apart_def)
  obtain r0 s1 g1 where b: "enemy_body car e (s, g) = (r0, s1, g1)" by (metis prod.exhaust)
  obtain k s2 g2 where u0: "update_enemies car es (s1, g1) = (k, s2, g2)" by (metis prod.exhaust)
  from Cons.prems(1) b u0 have eq: "kept = (if snd r0 then k else fst r0 # k)" "s2 = s'" "g2 = g'"
    by (auto split: prod.splits)
  from u0 eq have u: "update_enemies car es (s1, g1) = (k, s', g')" by simp
  from b show ?case
  proof (cases rule: enemy_body_cases)
    case (hit new)
    have below: "e_y e + ?v < 576" using hits_below[OF hit(1) car] .
    have quiet: "\<forall>r\<in>set es. \<not> hits car r s1 \<and> \<not> leaves r s1"
    proof
      fix r assume "r \<in> set es"
      with sp_e below have "e_y r + enemy_spd s1 < 389" using hit(8) by fastforce
      then have "e_y r + enemy_spd s1 < 409" "\<not> e_y r + enemy_spd s1 > 600" by simp_all
      then show "\<not> hits car r s1 \<and> \<not> leaves r s1"
        using far_above_no_hit[OF _ car] by (simp add: leaves_def WIN_H_def)
    qed
    from update_enemies_quiet[OF quiet, of g1] u
    have k: "k = map (\<lambda>e. moved e (enemy_spd s1)) es" and s': "s' = s1" by simp_all
    have "kept = map (\<lambda>e. moved e (enemy_spd s')) es" using eq(1) hit(2) k s' by simp
    moreover have "set es \<subseteq> set (e # es)" by auto
    moreover have "lives s' = lives s - 1 \<and> game_over s' = (lives s - 1 \<le> 0 \<or> game_over s)"
      using hit(6,9) s' by simp
    ultimately show ?thesis using sp_es by blast
  next
    case leave
    have v1: "5 \<le> enemy_spd s1" "enemy_spd s1 \<le> 18"
      using leave(4) Cons.prems(5,6) by (auto simp: MAX_SPEED_def)
    from Cons.IH[OF u car sp_es v1] obtain sub where
      sub: "k = map (\<lambda>e. moved e (enemy_spd s')) sub" "set sub \<subseteq> set es" "spaced sub"
      and lv: "lives s' = lives s1 \<and> game_over s' = game_over s1
          \<or> lives s' = lives s1 - 1 \<and> game_over s' = (lives s1 - 1 \<le> 0 \<or> game_over s1)"
      by blast
    have "kept = map (\<lambda>e. moved e (enemy_spd s')) sub" using eq(1) leave(3) sub(1) by simp
    moreover have "set sub \<subseteq> set (e # es)" using sub(2) by auto
    moreover have "lives s1 = lives s" "game_over s1 = game_over s" using leave(4) by simp_all
    ultimately show ?thesis using sub(3) lv by auto
  next
    case keep
    have stay: "e_y e + ?v \<le> 600" using keep(2) by (simp add: leaves_def WIN_H_def)
    have far: "\<forall>r\<in>set es. \<not> leaves r s1"
    proof
      fix r assume "r \<in> set es"
      with sp_e stay have "e_y r + ?v \<le> 600" by fastforce
      then show "\<not> leaves r s1" using keep(4) by (simp add: leaves_def WIN_H_def)
    qed
    from update_enemies_no_leave[OF u far] keep(4) have same: "enemy_spd s' = ?v" by simp
    from Cons.IH[OF u car sp_es] Cons.prems(5,6) keep(4) obtain sub where
      sub: "k = map (\<lambda>e. moved e (enemy_spd s')) sub" "set sub \<subseteq> set es" "spaced sub"
      and lv: "lives s' = lives s \<and> game_over s' = game_over s
          \<or> lives s' = lives s - 1 \<and> game_over s' = (lives s - 1 \<le> 0 \<or> game_over s)"
      by blast
    have "kept = map (\<lambda>e. moved e (enemy_spd s')) (e # sub)"
      using eq(1) keep(3) sub(1) same by simp
    moreover have "set (e # sub) \<subseteq> set (e # es)" using sub(2) by auto
    moreover have "spaced (e # sub)"
      using sub(2,3) sp_e by (auto simp: spaced_def apart_def)
    ultimately show ?thesis using lv by blast
  qed
qed

text \<open>The distance an enemy covers before the next one is spawned.\<close>

lemma spawn_gap:
  assumes "0 \<le> sc" and "- 8 \<le> jit"
  shows "187 \<le> real_of_int (max 25 (70 - sc div 5) + jit) * min 18 (5 + real_of_int (sc div 8) / 2)"
proof (cases "sc < 100")
  case True
  then have "sc div 5 \<le> 19" by presburger
  then have c: "43 \<le> max 25 (70 - sc div 5) + jit" using assms(2) by simp
  have "0 \<le> sc div 8" using assms(1) by (simp add: pos_imp_zdiv_nonneg_iff)
  then have v: "5 \<le> min 18 (5 + real_of_int (sc div 8) / 2)" by simp
  have "43 * 5 \<le> real_of_int (max 25 (70 - sc div 5) + jit) * min 18 (5 + real_of_int (sc div 8) / 2)"
    by (rule mult_mono) (use c v in simp_all)
  then show ?thesis by simp
next
  case False
  then have "12 \<le> sc div 8" by presburger
  then have "6 \<le> real_of_int (sc div 8) / 2" by simp
  then have v: "11 \<le> min 18 (5 + real_of_int (sc div 8) / 2)" by simp
  have c: "17 \<le> max 25 (70 - sc div 5) + jit" using assms(2) by simp
  have "17 * 11 \<le> real_of_int (max 25 (70 - sc div 5) + jit) * min 18 (5 + real_of_int (sc div 8) / 2)"
    by (rule mult_mono) (use c v in simp_all)
  then show ?thesis by simp
qed

lemma speed_of_score:
  assumes "v' = min MAX_SPEED (v + real_of_int (b div 8 - a div 8) / 2)"
    and "v = min MAX_SPEED (5 + real_of_int (a div 8) / 2)"
    and "a \<le> b"
  shows "v' = min MAX_SPEED (5 + real_of_int (b div 8) / 2)"
proof -
  have y: "0 \<le> real_of_int (b div 8 - a div 8) / 2" using assms(3) by (simp add: zdiv_mono1)
  have "v' = min 18 (min 18 (5 + real_of_int (a div 8) / 2) + real_of_int (b div 8 - a div 8) / 2)"
    using assms(1,2) by (simp only: MAX_SPEED_def)
  also have "\<dots> = min 18 (5 + (real_of_int (a div 8) / 2 + real_of_int (b div 8 - a div 8) / 2))"
    by (rule min_cap_twice[OF y])
  also have "real_of_int (a div 8) / 2 + real_of_int (b div 8 - a div 8) / 2 = real_of_int (b div 8) / 2"
    by (simp add: add_divide_distrib[symmetric])
  finally show ?thesis by (simp only: MAX_SPEED_def)
qed

lemma session_inv_speed:
  "session_inv s \<Longrightarrow> 5 \<le> enemy_spd s \<and> enemy_spd s \<le> 18"
proof -
  assume i: "session_inv s"
  then have "0 \<le> score s div 8" by (simp add: session_inv_def pos_imp_zdiv_nonneg_iff)
  then have "0 \<le> real_of_int (score s div 8) / 2" by simp
  with i show ?thesis by (simp add: session_inv_def MAX_SPEED_def)
qed

lemma session_invD:
  assumes "session_inv s"
  shows "car_y s = WIN_H - CAR_H - 24"
    and "0 \<le> score s"
    and "enemy_spd s = min MAX_SPEED (5 + real_of_int (score s div 8) / 2)"
    and "spaced (enemies s)"
    and "\<forall>e\<in>set (enemies s).
          187 \<le> e_y e + 84 + real_of_int (max (spawn_cd s - 1) 0) * enemy_spd s"
    and "game_over s \<Longrightarrow> lives s = 0"
    and "\<not> game_over s \<Longrightarrow> 1 \<le> lives s \<and> lives s \<le> 3"
  using assms unfolding session_inv_def by (auto split: if_splits)

lemma step_playing_inv:
  assumes inv: "session_inv (sess m)" and run: "\<not> game_over (sess m)"
  shows "session_inv (sess (step inp m))"
proof -
  let ?s = "sess m"
  from run obtain sa sb gb kept sc gc where
    f: "score sa = score ?s" "lives sa = lives ?s" "enemies sa = enemies ?s"
       "enemy_spd sa = enemy_spd ?s" "spawn_cd sa = spawn_cd ?s"
       "\<not> game_over sa" "car_y sa = car_y ?s"
    and sp: "spawn_enemies (sa, rng m) = (sb, gb)"
    and up: "update_enemies (Rect (py_int (car_x_px sa)) (car_y sa) CAR_W CAR_H) (enemies sb) (sb, gb)
       = (kept, sc, gc)"
    and st: "sess (step inp m) = sc\<lparr>enemies := kept, particles := particles_step (particles sc)\<rparr>"
    by (rule step_playing[where inp = inp]) blast
  let ?car = "Rect (py_int (car_x_px sa)) (car_y sa) CAR_W CAR_H"
  note d = session_invD[OF inv]
  have cy0: "car_y ?s = WIN_H - CAR_H - 24" and sc0: "0 \<le> score ?s"
    and spd: "enemy_spd ?s = min MAX_SPEED (5 + real_of_int (score ?s div 8) / 2)"
    and spc: "spaced (enemies ?s)"
    and room: "\<forall>e\<in>set (enemies ?s).
          187 \<le> e_y e + 84 + real_of_int (max (spawn_cd ?s - 1) 0) * enemy_spd ?s"
    and lv: "1 \<le> lives ?s" "lives ?s \<le> 3"
    using d(1-5) d(7)[OF run] by blast+
  have cy: "car_y ?s = 492" using cy0 by (simp add: layout_defs)
  have v: "5 \<le> enemy_spd ?s" "enemy_spd ?s \<le> 18" using session_inv_speed[OF inv] by simp_all
  have car: "r_top ?car = 492" "r_height ?car = 84" using f(7) cy by (simp_all add: Rect_def CAR_H_def)
  have b: "score sb = score ?s" "lives sb = lives ?s" "enemy_spd sb = enemy_spd ?s"
    "\<not> game_over sb" "car_y sb = car_y ?s"
    using spawn_enemies_effect(1)[OF sp] f by simp_all
  have sw: "spawns sa = spawns ?s" using f by (simp add: spawns_def)
  \<comment> \<open>after the spawn: the list is spaced, and every enemy has room for the countdown\<close>
  have after_spawn: "spaced (enemies sb)
      \<and> (\<forall>e\<in>set (enemies sb).
            187 \<le> e_y e + enemy_spd ?s + 84 + real_of_int (max (spawn_cd sb - 1) 0) * enemy_spd ?s)"
  proof (cases "spawns ?s")
    case False
    with spawn_enemies_effect(2)[OF sp] sw f
    have e: "enemies sb = enemies ?s" and c: "spawn_cd sb = spawn_cd ?s - 1" by simp_all
    have "187 \<le> e_y e + enemy_spd ?s + 84 + real_of_int (max (spawn_cd sb - 1) 0) * enemy_spd ?s"
      if "e \<in> set (enemies ?s)" for e
    proof -
      have "real_of_int (max (spawn_cd ?s - 1) 0) \<le> 1 + real_of_int (max (spawn_cd sb - 1) 0)"
        unfolding c by linarith
      then have "real_of_int (max (spawn_cd ?s - 1) 0) * enemy_spd ?s
                   \<le> (1 + real_of_int (max (spawn_cd sb - 1) 0)) * enemy_spd ?s"
        using v(1) by (intro mult_right_mono) simp_all
      with room that show ?thesis by (fastforce simp: algebra_simps)
    qed
    with e spc show ?thesis by simp
  next
    case True
    with spawn_enemies_effect(3)[OF sp] sw f obtain e0 jit where
      e: "enemies sb = enemies ?s @ [e0]" and y0: "e_y e0 = - real_of_int ENEMY_H"
      and j: "- 8 \<le> jit" and c: "spawn_cd sb = max 25 (70 - score ?s div 5) + jit"
      by auto
    from True have "max (spawn_cd ?s - 1) 0 = 0" by (simp add: spawns_def)
    with room have old: "\<forall>e\<in>set (enemies ?s). 103 \<le> e_y e" by fastforce
    have "spaced (enemies sb)"
      using spc old y0 unfolding e spaced_def
      by (auto simp: sorted_wrt_append apart_def ENEMY_H_def)
    moreover have "187 \<le> e_y e + enemy_spd ?s + 84 + real_of_int (max (spawn_cd sb - 1) 0) * enemy_spd ?s"
      if "e \<in> set (enemies sb)" for e
    proof (cases "e = e0")
      case True
      have c1: "1 \<le> spawn_cd sb" using c j by simp
      then have "real_of_int (max (spawn_cd sb - 1) 0) = real_of_int (spawn_cd sb) - 1" by simp
      then have "enemy_spd ?s + real_of_int (max (spawn_cd sb - 1) 0) * enemy_spd ?s
                   = real_of_int (spawn_cd sb) * enemy_spd ?s"
        by (simp add: algebra_simps)
      moreover have "187 \<le> real_of_int (spawn_cd sb) * enemy_spd ?s"
        unfolding c spd MAX_SPEED_def by (rule spawn_gap[OF sc0 j])
      ultimately show ?thesis using True y0 by (simp add: ENEMY_H_def)
    next
      case False
      with that e old have "103 \<le> e_y e" by auto
      moreover have "0 \<le> real_of_int (max (spawn_cd sb - 1) 0) * enemy_spd ?s"
        using v(1) by (intro mult_nonneg_nonneg) simp_all
      ultimately show ?thesis using v(1) by linarith
    qed
    ultimately show ?thesis by blast
  qed
  \<comment> \<open>the loop\<close>
  from update_enemies_spaced[OF up car] after_spawn b(3) v obtain sub where
    sub: "kept = map (\<lambda>e. moved e (enemy_spd sc)) sub" "set sub \<subseteq> set (enemies sb)" "spaced sub"
    and hit1: "lives sc = lives sb \<and> game_over sc = game_over sb
          \<or> lives sc = lives sb - 1 \<and> game_over sc = (lives sb - 1 \<le> 0 \<or> game_over sb)"
    by auto
  have sps: "enemy_spd sc =
      min MAX_SPEED (enemy_spd sb + real_of_int (score sc div 8 - score sb div 8) / 2)"
    and scm: "score sb \<le> score sc"
    using update_enemies_speed[OF up] b(3) v(2) by (simp_all add: MAX_SPEED_def)
  have fr: "car_y sc = car_y sb" "spawn_cd sc = spawn_cd sb"
    using update_enemies_frame[OF up] by simp_all
  have spd': "enemy_spd sc = min MAX_SPEED (5 + real_of_int (score sc div 8) / 2)"
    using speed_of_score[OF sps _ scm] spd b by simp
  have grow: "enemy_spd ?s \<le> enemy_spd sc"
  proof -
    have "0 \<le> real_of_int (score sc div 8 - score sb div 8) / 2" using scm by (simp add: zdiv_mono1)
    with sps b(3) v(2) show ?thesis by (simp add: MAX_SPEED_def min_def)
  qed
  have room': "187 \<le> e_y k + 84 + real_of_int (max (spawn_cd sc - 1) 0) * enemy_spd sc"
    if "k \<in> set kept" for k
  proof -
    from that sub(1,2) obtain e where e: "e \<in> set (enemies sb)" "k = moved e (enemy_spd sc)" by auto
    from after_spawn e(1)
    have "187 \<le> e_y e + enemy_spd ?s + 84 + real_of_int (max (spawn_cd sb - 1) 0) * enemy_spd ?s"
      by simp
    moreover have "real_of_int (max (spawn_cd sb - 1) 0) * enemy_spd ?s
                    \<le> real_of_int (max (spawn_cd sb - 1) 0) * enemy_spd sc"
      using grow by (intro mult_left_mono) simp_all
    ultimately show ?thesis using grow e(2) fr(2) by (simp add: moved_def)
  qed
  have "spaced kept" unfolding sub(1) by (rule spaced_moved[OF sub(3)])
  moreover have "car_y sc = WIN_H - CAR_H - 24" using fr(1) b(5) cy by (simp add: layout_defs)
  moreover have "0 \<le> score sc" using scm b(1) sc0 by simp
  moreover have "if game_over sc then lives sc = 0 else 1 \<le> lives sc \<and> lives sc \<le> 3"
    using hit1 b(2,4) lv by auto
  ultimately show ?thesis
    unfolding st session_inv_def using spd' room' by simp
qed

lemma step_inv:
  assumes "session_inv (sess m)"
  shows "session_inv (sess (step inp m))"
proof (cases "game_over (sess m)")
  case False
  with assms show ?thesis by (rule step_playing_inv)
next
  case True
  show ?thesis
  proof (cases "restarts inp m")
    case r: True
    from step_game_over(1)[OF True r] show ?thesis
      by (simp add: session_inv_def reset_state_def spaced_def layout_defs)
  next
    case r: False
    from step_game_over(2)[OF True r]
    have "score (sess (step inp m)) = score (sess m)" "lives (sess (step inp m)) = lives (sess m)"
      "enemies (sess (step inp m)) = enemies (sess m)"
      "enemy_spd (sess (step inp m)) = enemy_spd (sess m)"
      "spawn_cd (sess (step inp m)) = spawn_cd (sess m)"
      "car_y (sess (step inp m)) = car_y (sess m)"
      "game_over (sess (step inp m)) = game_over (sess m)"
      using True by simp_all
    then have "session_inv (sess (step inp m)) = session_inv (sess m)"
      unfolding session_inv_def by (simp only:)
    with assms show ?thesis by simp
  qed
qed

lemma reachable_inv: "reachable m \<Longrightarrow> session_inv (sess m)"
proof (induction rule: reachable.induct)
  case (reachable_initial w g)
  show ?case by (simp add: initial_def session_inv_def reset_state_def spaced_def layout_defs)
next
  case (reachable_step m inp)
  then show ?case by (simp add: step_inv)
qed

text \<open>
  Claim C1. In every reachable state \<open>lives\<close> is not negative, and it is 0 exactly when
  \<open>game_over\<close> is set. The enemies are so far apart that at most one of them hits the car
  in a pass, so \<open>lives\<close> drops by at most one in a pass and stops at 0. The example run
  reaches both cases: two lives and the game running after the first collision (pass 168),
  no life and the game over after the third (pass 294).
\<close>

theorem lives_and_game_over:
  assumes "reachable m"
  shows "0 \<le> lives (sess m) \<and> (lives (sess m) = 0 \<longleftrightarrow> game_over (sess m))
       \<and> lives (sess m) \<le> 3"
proof -
  note d = session_invD[OF reachable_inv[OF assms]]
  show ?thesis using d(6,7) by (cases "game_over (sess m)") auto
qed

theorem lives_and_game_over_witness:
  "reachable (ex_run 168) \<and> lives (sess (ex_run 168)) = 2 \<and> \<not> game_over (sess (ex_run 168))
   \<and> (lives (sess (ex_run 168)) = 0 \<longleftrightarrow> game_over (sess (ex_run 168)))
   \<and> reachable (ex_run 294) \<and> game_over (sess (ex_run 294)) \<and> lives (sess (ex_run 294)) = 0
   \<and> (lives (sess (ex_run 294)) = 0 \<longleftrightarrow> game_over (sess (ex_run 294)))
   \<and> 0 \<le> lives (sess (ex_run 294))"
proof -
  from ex_run_168 have a: "lives (sess (ex_run 168)) = 2" by (auto simp: ex_state_def)
  from ex_run_294 have b: "game_over (sess (ex_run 294))" by (auto simp: ex_state_def)
  note t1 = lives_and_game_over[OF reachable_ex_run[of 168]]
  note t2 = lives_and_game_over[OF reachable_ex_run[of 294]]
  from t1 a have "\<not> game_over (sess (ex_run 168))" by simp
  moreover from t2 b have "lives (sess (ex_run 294)) = 0" by simp
  ultimately show ?thesis using a b t1 t2 reachable_ex_run by simp
qed

subsection \<open>Collision against leaving the window\<close>

text \<open>
  Claim C2. In a pass while the game runs, the loop reaches the enemy \<open>e\<close> of the list
  \<open>xs @ e # ys\<close> in the state \<open>s1\<close> that it leaves after \<open>xs\<close>. When the rectangle of \<open>e\<close> at its
  new height overlaps the rectangle of the car, \<open>e\<close> is resolved as a collision, whether or
  not its top has passed the bottom of the window: its index is appended to \<^verbatim>\<open>to_remove\<close>,
  40 particles are appended at its mid-point, \<open>lives\<close> drops by one, and neither \<open>score\<close> nor
  the speed changes for it. The loop goes on with \<open>ys\<close>, and the state after the pass is the
  state after the loop, without \<open>e\<close> in the list: the pass costs at least one life, and every
  enemy that is deleted is counted once, in the lives or in the score.

  In a reachable state the car is on row 492, and an enemy that overlaps the car has its
  top above 576, so it is not below the window: in a game the two tests never hold together.
  They do when the car row is lower, as in \<open>ex_low\<close>, and the pass resolves that enemy as a
  collision too.
\<close>

theorem collision_before_exit:
  "(\<not> game_over (sess m) \<and> before_loop inp m = (car, sb, gb) \<and> enemies sb = xs @ e # ys
      \<and> update_enemies car xs (sb, gb) = (kx, s1, g1) \<and> hits car e s1 \<longrightarrow>
    (\<exists>new s2 g2 ky s3 g3.
        enemy_body car e (s1, g1) = ((moved e (enemy_spd s1), True), s2, g2)
      \<and> particles s2 = particles s1 @ new \<and> length new = 40
      \<and> (\<forall>p\<in>set new.
            fresh (e_cx e) (py_int (e_y e + enemy_spd s1 + real_of_int (ENEMY_H div 2))) p)
      \<and> lives s2 = lives s1 - 1 \<and> score s2 = score s1 \<and> enemy_spd s2 = enemy_spd s1
      \<and> update_enemies car ys (s2, g2) = (ky, s3, g3)
      \<and> step inp m =
           \<lparr>sess = s3\<lparr>enemies := kx @ ky, particles := particles_step (particles s3)\<rparr>,
            cam_tick = cam_tick m + 1, frame_w = seen_width inp m, rng = g3\<rparr>
      \<and> lives (sess (step inp m)) \<le> lives (sess m) - 1
      \<and> int (length (enemies sb)) =
           int (length (enemies (sess (step inp m))))
           + (score (sess (step inp m)) - score (sess m))
           + (lives (sess m) - lives (sess (step inp m)))))
   \<and> (reachable m \<and> before_loop inp m = (car, sb, gb) \<and> hits car e s \<longrightarrow> \<not> leaves e s)"
proof (rule conjI)
  show "\<not> game_over (sess m) \<and> before_loop inp m = (car, sb, gb) \<and> enemies sb = xs @ e # ys
      \<and> update_enemies car xs (sb, gb) = (kx, s1, g1) \<and> hits car e s1 \<longrightarrow>
    (\<exists>new s2 g2 ky s3 g3.
        enemy_body car e (s1, g1) = ((moved e (enemy_spd s1), True), s2, g2)
      \<and> particles s2 = particles s1 @ new \<and> length new = 40
      \<and> (\<forall>p\<in>set new.
            fresh (e_cx e) (py_int (e_y e + enemy_spd s1 + real_of_int (ENEMY_H div 2))) p)
      \<and> lives s2 = lives s1 - 1 \<and> score s2 = score s1 \<and> enemy_spd s2 = enemy_spd s1
      \<and> update_enemies car ys (s2, g2) = (ky, s3, g3)
      \<and> step inp m =
           \<lparr>sess = s3\<lparr>enemies := kx @ ky, particles := particles_step (particles s3)\<rparr>,
            cam_tick = cam_tick m + 1, frame_w = seen_width inp m, rng = g3\<rparr>
      \<and> lives (sess (step inp m)) \<le> lives (sess m) - 1
      \<and> int (length (enemies sb)) =
           int (length (enemies (sess (step inp m))))
           + (score (sess (step inp m)) - score (sess m))
           + (lives (sess m) - lives (sess (step inp m))))"
  proof
    assume a: "\<not> game_over (sess m) \<and> before_loop inp m = (car, sb, gb) \<and> enemies sb = xs @ e # ys
      \<and> update_enemies car xs (sb, gb) = (kx, s1, g1) \<and> hits car e s1"
    then have run: "\<not> game_over (sess m)" and bl: "before_loop inp m = (car, sb, gb)"
      and es: "enemies sb = xs @ e # ys" and ux: "update_enemies car xs (sb, gb) = (kx, s1, g1)"
      and h: "hits car e s1" by simp_all
    from enemy_body_hit[OF h, of g1] obtain new g2 s2 where
      b: "enemy_body car e (s1, g1) = ((moved e (enemy_spd s1), True), s2, g2)"
      and f: "particles s2 = particles s1 @ new" "length new = 40"
        "\<forall>p\<in>set new. fresh (e_cx e) (py_int (e_y e + enemy_spd s1 + real_of_int (ENEMY_H div 2))) p"
        "lives s2 = lives s1 - 1" "score s2 = score s1" "enemy_spd s2 = enemy_spd s1"
      by blast
    obtain ky s3 g3 where uy: "update_enemies car ys (s2, g2) = (ky, s3, g3)"
      by (metis prod.exhaust)
    have up: "update_enemies car (enemies sb) (sb, gb) = (kx @ ky, s3, g3)"
      unfolding es update_enemies_append using ux b uy by simp
    note st = step_before_loop[OF run bl up]
    note e0 = before_loop_effect[OF bl]
    have l1: "lives s1 \<le> lives sb" using update_enemies_account[OF ux] by simp
    have l3: "lives s3 \<le> lives s2" using update_enemies_account[OF uy] by simp
    have lv: "lives (sess (step inp m)) \<le> lives (sess m) - 1"
      unfolding st using l1 l3 f(4) e0 by simp
    have acc: "int (length (enemies sb)) =
           int (length (enemies (sess (step inp m))))
           + (score (sess (step inp m)) - score (sess m))
           + (lives (sess m) - lives (sess (step inp m)))"
      unfolding st using update_enemies_account[OF up] e0 by simp
    from b f(1,2,3) f(4,5,6) uy st lv acc
    show "\<exists>new s2 g2 ky s3 g3.
        enemy_body car e (s1, g1) = ((moved e (enemy_spd s1), True), s2, g2)
      \<and> particles s2 = particles s1 @ new \<and> length new = 40
      \<and> (\<forall>p\<in>set new.
            fresh (e_cx e) (py_int (e_y e + enemy_spd s1 + real_of_int (ENEMY_H div 2))) p)
      \<and> lives s2 = lives s1 - 1 \<and> score s2 = score s1 \<and> enemy_spd s2 = enemy_spd s1
      \<and> update_enemies car ys (s2, g2) = (ky, s3, g3)
      \<and> step inp m =
           \<lparr>sess = s3\<lparr>enemies := kx @ ky, particles := particles_step (particles s3)\<rparr>,
            cam_tick = cam_tick m + 1, frame_w = seen_width inp m, rng = g3\<rparr>
      \<and> lives (sess (step inp m)) \<le> lives (sess m) - 1
      \<and> int (length (enemies sb)) =
           int (length (enemies (sess (step inp m))))
           + (score (sess (step inp m)) - score (sess m))
           + (lives (sess m) - lives (sess (step inp m)))"
      by blast
  qed
next
  show "reachable m \<and> before_loop inp m = (car, sb, gb) \<and> hits car e s \<longrightarrow> \<not> leaves e s"
  proof
    assume a: "reachable m \<and> before_loop inp m = (car, sb, gb) \<and> hits car e s"
    then have r: "reachable m" and bl: "before_loop inp m = (car, sb, gb)" and h: "hits car e s"
      by simp_all
    have "car_y (sess m) = 492" using session_invD(1)[OF reachable_inv[OF r]] by (simp add: layout_defs)
    with before_loop_effect[OF bl] have "r_top car = 492" "r_height car = 84"
      by (simp_all add: CAR_H_def)
    from hits_below[OF h this] show "\<not> leaves e s" by (simp add: leaves_def WIN_H_def)
  qed
qed

theorem collision_before_exit_witness:
  "reachable (ex_run 167) \<and> \<not> game_over (sess (ex_run 167))
   \<and> fst (before_loop ex_idle (ex_run 167)) = Rect 373 492 CAR_W CAR_H
   \<and> enemies (fst (snd (before_loop ex_idle (ex_run 167)))) = [] @ ex_lane1 406 # [ex_lane1 91]
   \<and> hits (Rect 373 492 CAR_W CAR_H) (ex_lane1 406) (fst (snd (before_loop ex_idle (ex_run 167))))
   \<and> \<not> leaves (ex_lane1 406) (fst (snd (before_loop ex_idle (ex_run 167))))
   \<and> lives (sess (ex_run 167)) = 3 \<and> score (sess (ex_run 167)) = 0
   \<and> lives (sess (step ex_idle (ex_run 167))) = 2
   \<and> score (sess (step ex_idle (ex_run 167))) = 0
   \<and> enemies (sess (step ex_idle (ex_run 167))) = [ex_lane1 96]
   \<and> length (particles (sess (step ex_idle (ex_run 167)))) = 40
   \<and> \<not> game_over (sess ex_low)
   \<and> fst (before_loop ex_idle ex_low) = Rect 373 550 CAR_W CAR_H
   \<and> enemies (fst (snd (before_loop ex_idle ex_low))) = [] @ ex_enemy # []
   \<and> hits (Rect 373 550 CAR_W CAR_H) ex_enemy (fst (snd (before_loop ex_idle ex_low)))
   \<and> leaves ex_enemy (fst (snd (before_loop ex_idle ex_low)))
   \<and> lives (sess ex_low) = 3 \<and> score (sess ex_low) = 0
   \<and> lives (sess (step ex_idle ex_low)) = 2
   \<and> score (sess (step ex_idle ex_low)) = 0
   \<and> enemies (sess (step ex_idle ex_low)) = []"
proof -
  let ?car = "Rect 373 492 CAR_W CAR_H"
  let ?m = "ex_run 167"
  note st = ex_run_167
  have r: "reachable ?m" by (rule reachable_ex_run)
  have run: "\<not> game_over (sess ?m)" and l0: "lives (sess ?m) = 3" and s0: "score (sess ?m) = 0"
    using st by (simp_all add: ex_state_def)
  from ex_before_loop(1)[OF st] obtain sb where
    bl: "before_loop ex_idle ?m = (?car, sb, sconst 1)"
    and sb: "enemies sb = map ex_lane1 [406, 91]" "lives sb = 3" "score sb = 0" "enemy_spd sb = 5"
      "particles sb = []"
    by auto
  have es: "enemies sb = [] @ ex_lane1 406 # [ex_lane1 91]" using sb(1) by simp
  have ux: "update_enemies ?car [] (sb, sconst 1) = ([], sb, sconst 1)" by simp
  have h: "hits ?car (ex_lane1 406) sb"
    by (simp add: hits_def colliderect_def Rect_def ex_lane1_def sb(4) py_int_def layout_defs)
  from collision_before_exit[of ?m ex_idle ?car sb "sconst 1" "[]" "ex_lane1 406" "[ex_lane1 91]" "[]" sb "sconst 1" sb]
    run bl es ux h r
  obtain new s2 g2 ky s3 g3 where
    f: "particles s2 = particles sb @ new" "length new = 40"
       "\<forall>p\<in>set new. fresh (e_cx (ex_lane1 406))
            (py_int (e_y (ex_lane1 406) + enemy_spd sb + real_of_int (ENEMY_H div 2))) p"
       "lives s2 = lives sb - 1" "score s2 = score sb" "enemy_spd s2 = enemy_spd sb"
    and uy: "update_enemies ?car [ex_lane1 91] (s2, g2) = (ky, s3, g3)"
    and step: "step ex_idle ?m =
           \<lparr>sess = s3\<lparr>enemies := [] @ ky, particles := particles_step (particles s3)\<rparr>,
            cam_tick = cam_tick ?m + 1, frame_w = seen_width ex_idle ?m, rng = g3\<rparr>"
    and nl: "\<not> leaves (ex_lane1 406) sb"
    by blast
  have v2: "enemy_spd s2 = 5" using f(6) sb(4) by simp
  have "update_enemies ?car (map ex_lane1 [91]) (s2, g2) = (map ex_lane1 (map (\<lambda>y. y + 5) [91]), s2, g2)"
    using update_enemies_quiet[OF ex_far[of "[91]" s2, OF _ v2], of g2] by (simp only: ex_moved v2) simp
  with uy have ky: "ky = [ex_lane1 96]" and s3: "s3 = s2" by simp_all
  have big: "\<forall>p\<in>set new. 1 < p_life p" using f(3) by (auto simp: fresh_def)
  have real: "lives (sess (step ex_idle ?m)) = 2" "score (sess (step ex_idle ?m)) = 0"
    "enemies (sess (step ex_idle ?m)) = [ex_lane1 96]"
    "length (particles (sess (step ex_idle ?m))) = 40"
    unfolding step using ky s3 f(1,2,4,5) sb particles_step_length[OF big] by simp_all
  \<comment> \<open>the car row 58 pixels lower\<close>
  let ?low = "Rect 373 550 CAR_W CAR_H"
  let ?sl = "reset_state\<lparr>car_y := 550, spawn_cd := 8, enemies := [ex_enemy], tick := 1, dash_off := 3\<rparr>"
  note bl' = ex_low_before_loop
  have run': "\<not> game_over (sess ex_low)" and l0': "lives (sess ex_low) = 3" and s0': "score (sess ex_low) = 0"
    by (simp_all add: ex_low_def reset_state_def)
  have es': "enemies ?sl = [] @ ex_enemy # []" by simp
  have ux': "update_enemies ?low [] (?sl, sconst 0) = ([], ?sl, sconst 0)" by simp
  have h': "hits ?low ex_enemy ?sl"
    by (simp add: hits_def colliderect_def Rect_def ex_enemy_def reset_state_def py_int_def layout_defs)
  have lv': "leaves ex_enemy ?sl"
    by (simp add: leaves_def ex_enemy_def reset_state_def WIN_H_def)
  from collision_before_exit[of ex_low ex_idle ?low ?sl "sconst 0" "[]" ex_enemy "[]" "[]" ?sl "sconst 0"]
    run' bl' es' ux' h'
  obtain s2' g2' ky' s3' g3' where
    f': "lives s2' = lives ?sl - 1" "score s2' = score ?sl"
    and uy': "update_enemies ?low [] (s2', g2') = (ky', s3', g3')"
    and step': "step ex_idle ex_low =
           \<lparr>sess = s3'\<lparr>enemies := [] @ ky', particles := particles_step (particles s3')\<rparr>,
            cam_tick = cam_tick ex_low + 1, frame_w = seen_width ex_idle ex_low, rng = g3'\<rparr>"
    by blast
  from uy' have ky': "ky' = []" and s3': "s3' = s2'" by simp_all
  have low: "lives (sess (step ex_idle ex_low)) = 2" "score (sess (step ex_idle ex_low)) = 0"
    "enemies (sess (step ex_idle ex_low)) = []"
    unfolding step' using ky' s3' f' by (simp_all add: reset_state_def)
  have p1: "fst (before_loop ex_idle ?m) = ?car" "fst (snd (before_loop ex_idle ?m)) = sb"
    using bl by simp_all
  have p2: "fst (before_loop ex_idle ex_low) = ?low" "fst (snd (before_loop ex_idle ex_low)) = ?sl"
    using bl' by simp_all
  show ?thesis
    unfolding p1 p2 using r run es h nl l0 s0 real run' es' h' lv' l0' s0' low by blast
qed

subsection \<open>Speed\<close>







subsection \<open>Game over: restart and cooldown\<close>

text \<open>
  Claim C4. When the game is over, \<open>go_timer\<close> is 0 and the pass sees a hand position
  (the one stored, or the one the camera delivers in this pass when it is processed), the
  state after the pass is the fresh state: score 0, lives 3, no enemies, no particles,
  speed 5, spawn countdown 70, scroll offset 0, and the car centred on lane 1.
\<close>

theorem restart_resets:
  assumes "game_over (sess m)" and "go_timer (sess m) = 0"
    and "(if (cam_tick m + 1) mod CAM_SKIP = 0 \<and> ret2 inp then hand inp else hand_x (sess m)) \<noteq> None"
  shows "sess (step inp m) = reset_state
       \<and> score (sess (step inp m)) = 0
       \<and> lives (sess (step inp m)) = 3
       \<and> enemies (sess (step inp m)) = []
       \<and> particles (sess (step inp m)) = []
       \<and> enemy_spd (sess (step inp m)) = 5
       \<and> spawn_cd (sess (step inp m)) = 70
       \<and> dash_off (sess (step inp m)) = 0
       \<and> \<not> game_over (sess (step inp m))
       \<and> car_x_px (sess (step inp m)) + real_of_int CAR_W / 2 = real_of_int (LANE_X ! 1)"
proof -
  have "sess (step inp m) = reset_state"
    using assms
    by (auto simp: step_def Let_def game_over_screen_def particles_step_def reset_state_def
             split: if_splits)
  then show ?thesis
    by (simp add: reset_state_def LANE_X_def layout_defs)
qed

theorem restart_resets_witness:
  "game_over (sess (ex_over 0)) \<and> go_timer (sess (ex_over 0)) = 0
   \<and> (if (cam_tick (ex_over 0) + 1) mod CAM_SKIP = 0 \<and> ret2 ex_cam
         then hand ex_cam else hand_x (sess (ex_over 0))) \<noteq> None
   \<and> sess (step ex_cam (ex_over 0)) = reset_state
   \<and> score (sess (step ex_cam (ex_over 0))) = 0
   \<and> lives (sess (step ex_cam (ex_over 0))) = 3"
proof -
  have h1: "game_over (sess (ex_over 0))" and h2: "go_timer (sess (ex_over 0)) = 0"
    by (simp_all add: ex_over_def)
  have h3: "(if (cam_tick (ex_over 0) + 1) mod CAM_SKIP = 0 \<and> ret2 ex_cam
         then hand ex_cam else hand_x (sess (ex_over 0))) \<noteq> None"
    by (simp add: ex_over_def ex_cam_def CAM_SKIP_def)
  from restart_resets[OF h1 h2 h3] h1 h2 h3 show ?thesis by blast
qed

text \<open>
  Claim C5. While the game is over and \<open>go_timer\<close> is positive, a pass decrements
  \<open>go_timer\<close> by exactly 1, whatever the camera delivers, and does not restart: the game
  stays over, and score, lives, enemies, speed, spawn countdown and car position are
  those of before.
\<close>

theorem cooldown_counts_down:
  assumes "game_over (sess m)" and "0 < go_timer (sess m)"
  shows "go_timer (sess (step inp m)) = go_timer (sess m) - 1
       \<and> game_over (sess (step inp m))
       \<and> sess (step inp m) \<noteq> reset_state
       \<and> score (sess (step inp m)) = score (sess m)
       \<and> lives (sess (step inp m)) = lives (sess m)
       \<and> enemies (sess (step inp m)) = enemies (sess m)
       \<and> enemy_spd (sess (step inp m)) = enemy_spd (sess m)
       \<and> spawn_cd (sess (step inp m)) = spawn_cd (sess m)
       \<and> car_x_px (sess (step inp m)) = car_x_px (sess m)
       \<and> tick (sess (step inp m)) = tick (sess m) + 1
       \<and> particles (sess (step inp m)) = particles_step (particles (sess m))"
proof -
  have go: "game_over (sess (step inp m))"
    using assms by (auto simp: step_def Let_def game_over_screen_def)
  have "\<not> game_over reset_state" by (simp add: reset_state_def)
  with go have ne: "sess (step inp m) \<noteq> reset_state" by auto
  have "go_timer (sess (step inp m)) = go_timer (sess m) - 1
       \<and> score (sess (step inp m)) = score (sess m)
       \<and> lives (sess (step inp m)) = lives (sess m)
       \<and> enemies (sess (step inp m)) = enemies (sess m)
       \<and> enemy_spd (sess (step inp m)) = enemy_spd (sess m)
       \<and> spawn_cd (sess (step inp m)) = spawn_cd (sess m)
       \<and> car_x_px (sess (step inp m)) = car_x_px (sess m)
       \<and> tick (sess (step inp m)) = tick (sess m) + 1
       \<and> particles (sess (step inp m)) = particles_step (particles (sess m))"
    using assms by (auto simp: step_def Let_def game_over_screen_def)
  with go ne show ?thesis by simp
qed

theorem cooldown_counts_down_witness:
  "game_over (sess (ex_over 120)) \<and> 0 < go_timer (sess (ex_over 120))
   \<and> go_timer (sess (step ex_cam (ex_over 120))) = 119
   \<and> score (sess (step ex_cam (ex_over 120))) = 8
   \<and> game_over (sess (step ex_cam (ex_over 120)))"
  using cooldown_counts_down[of "ex_over 120" ex_cam] by (simp add: ex_over_def)

subsection \<open>The number of enemies\<close>

lemma reachable_length:
  "reachable m \<Longrightarrow> int (length (enemies (sess m))) \<le> MAX_ENEMIES"
proof (induction rule: reachable.induct)
  case (reachable_initial w g)
  then show ?case by (simp add: initial_def reset_state_def MAX_ENEMIES_def)
next
  case (reachable_step m inp)
  from reachable_step.IH show ?case by (rule step_length)
qed

text \<open>
  Claim C6. In every reachable state the list of enemies has at most \<open>MAX_ENEMIES\<close> (12)
  elements. When the spawn countdown has run out (it is \<open>\<le> 0\<close> after the decrement) and
  the list is at the cap, the spawn section returns normally: it changes nothing but the
  countdown, which it decrements, and it consumes no random draw.
\<close>

theorem enemies_capped:
  "(reachable m \<longrightarrow> int (length (enemies (sess m))) \<le> MAX_ENEMIES)
   \<and> (spawn_cd s - 1 \<le> 0 \<and> MAX_ENEMIES \<le> int (length (enemies s)) \<longrightarrow>
        spawn_enemies (s, g) = (s\<lparr>spawn_cd := spawn_cd s - 1\<rparr>, g))"
  using reachable_length[of m] by (simp add: spawn_enemies_def Let_def)

theorem enemies_capped_witness:
  "reachable (initial 640 (sconst 0))
   \<and> int (length (enemies (sess (initial 640 (sconst 0))))) \<le> MAX_ENEMIES
   \<and> spawn_cd (reset_state\<lparr>spawn_cd := 1, enemies := replicate 12 ex_enemy\<rparr>) - 1 \<le> 0
   \<and> MAX_ENEMIES \<le> int (length (enemies (reset_state\<lparr>spawn_cd := 1, enemies := replicate 12 ex_enemy\<rparr>)))
   \<and> spawn_enemies (reset_state\<lparr>spawn_cd := 1, enemies := replicate 12 ex_enemy\<rparr>, sconst 0)
       = (reset_state\<lparr>spawn_cd := 0, enemies := replicate 12 ex_enemy\<rparr>, sconst 0)"
  using enemies_capped[of "initial 640 (sconst 0)"
          "reset_state\<lparr>spawn_cd := 1, enemies := replicate 12 ex_enemy\<rparr>" "sconst 0"]
        reachable_initial[of 640 "sconst 0"]
  by (simp add: MAX_ENEMIES_def)

subsection \<open>The car slides to its lane\<close>

lemma hand_lane_range: "hand_lane h w = 0 \<or> hand_lane h w = 1 \<or> hand_lane h w = 2"
  by (auto simp: hand_lane_def Let_def split: option.splits)

lemma target_x_values: "target_x inp m = 160 \<or> target_x inp m = 373 \<or> target_x inp m = 586"
  using hand_lane_range[of "seen_hand inp m" "seen_width inp m"]
  by (auto simp: target_x_def LANE_X_eval CAR_W_def)

lemma target_x_double: "is_double (target_x inp m)"
proof -
  have "is_double (real_of_int 160)" "is_double (real_of_int 373)" "is_double (real_of_int 586)"
    by (rule is_double_int, simp)+
  with target_x_values[of inp m] show ?thesis by auto
qed

lemma reachable_car_double: "reachable m \<Longrightarrow> is_double (car_x_px (sess m))"
proof (induction rule: reachable.induct)
  case (reachable_initial w g)
  have "is_double (real_of_int 373)" by (rule is_double_int) simp
  then show ?case by (simp add: initial_def reset_state_def LANE_X_eval CAR_W_def)
next
  case (reachable_step m inp)
  show ?case
  proof (cases "game_over (sess m)")
    case False
    then show ?thesis by (simp add: step_car_x lerp_def)
  next
    case True
    show ?thesis
    proof (cases "restarts inp m")
      case r: True
      have "is_double (real_of_int 373)" by (rule is_double_int) simp
      with step_game_over(1)[OF True r] show ?thesis
        by (simp add: reset_state_def LANE_X_eval CAR_W_def)
    next
      case r: False
      with step_game_over(2)[OF True r] reachable_step.IH show ?thesis by simp
    qed
  qed
qed

text \<open>
  Claim C7, amended. In a reachable state the position of the car is a double. While the
  game runs, a pass moves the car from \<open>x\<close> to the double-precision value of
  \<open>x + 0.25 \<sqdot> (target_x - x)\<close>, where \<open>target_x\<close> is the centre of the target lane minus half
  the width of the car. The car stays between its old position and the target, so it
  moves toward the target and never past it. The new position differs from the exact
  value of the formula by at most \<open>max \<bar>x\<bar> \<bar>target_x\<bar> / 2\<^sup>5\<^sup>3 + \<bar>target_x - x\<bar> / 2\<^sup>5\<^sup>5\<close>, and
  so does the new distance to the target from 0.75 times the old one.
\<close>

theorem car_slides_to_target:
  "(reachable m \<longrightarrow> is_double (car_x_px (sess m)))
   \<and> (\<not> game_over (sess m) \<and> is_double (car_x_px (sess m)) \<longrightarrow>
        target_x inp m
          = real_of_int (LANE_X ! hand_lane (seen_hand inp m) (seen_width inp m)) - real_of_int CAR_W / 2
      \<and> car_x_px (sess (step inp m))
          = round_double (car_x_px (sess m)
              + round_double (round_double (target_x inp m - car_x_px (sess m)) * 0.25))
      \<and> (car_x_px (sess m) \<le> target_x inp m \<longrightarrow>
            car_x_px (sess m) \<le> car_x_px (sess (step inp m))
          \<and> car_x_px (sess (step inp m)) \<le> target_x inp m)
      \<and> (target_x inp m \<le> car_x_px (sess m) \<longrightarrow>
            target_x inp m \<le> car_x_px (sess (step inp m))
          \<and> car_x_px (sess (step inp m)) \<le> car_x_px (sess m))
      \<and> \<bar>car_x_px (sess (step inp m))
            - (car_x_px (sess m) + 0.25 * (target_x inp m - car_x_px (sess m)))\<bar>
          \<le> max \<bar>car_x_px (sess m)\<bar> \<bar>target_x inp m\<bar> / 2 ^ 53
             + \<bar>target_x inp m - car_x_px (sess m)\<bar> / 2 ^ 55
      \<and> \<bar>\<bar>car_x_px (sess (step inp m)) - target_x inp m\<bar>
            - 0.75 * \<bar>car_x_px (sess m) - target_x inp m\<bar>\<bar>
          \<le> max \<bar>car_x_px (sess m)\<bar> \<bar>target_x inp m\<bar> / 2 ^ 53
             + \<bar>target_x inp m - car_x_px (sess m)\<bar> / 2 ^ 55)"
proof -
  let ?x = "car_x_px (sess m)" and ?t = "target_x inp m" and ?x' = "car_x_px (sess (step inp m))"
  let ?b = "max \<bar>?x\<bar> \<bar>?t\<bar> / 2 ^ 53 + \<bar>?t - ?x\<bar> / 2 ^ 55"
  have 1: "?t = real_of_int (LANE_X ! hand_lane (seen_hand inp m) (seen_width inp m)) - real_of_int CAR_W / 2"
    by (simp add: target_x_def CAR_W_def)
  have main: "?x' = round_double (?x + round_double (round_double (?t - ?x) * 0.25))
      \<and> (?x \<le> ?t \<longrightarrow> ?x \<le> ?x' \<and> ?x' \<le> ?t)
      \<and> (?t \<le> ?x \<longrightarrow> ?t \<le> ?x' \<and> ?x' \<le> ?x)
      \<and> \<bar>?x' - (?x + 0.25 * (?t - ?x))\<bar> \<le> ?b
      \<and> \<bar>\<bar>?x' - ?t\<bar> - 0.75 * \<bar>?x - ?t\<bar>\<bar> \<le> ?b"
    if run: "\<not> game_over (sess m)" and dx: "is_double ?x"
  proof -
    have eq: "?x' = lerp ?x ?t (1 / 4)" using run by (rule step_car_x)
    note f = lerp_facts[OF dx target_x_double[of inp m], folded eq]
    have a: "?x' = round_double (?x + round_double (round_double (?t - ?x) * 0.25))"
      unfolding eq lerp_def quarter ..
    have e: "\<bar>?x' - (?x + (?t - ?x) / 4)\<bar> \<le> ?b" using f by (elim conjE)
    have c: "\<bar>(?x + (?t - ?x) / 4) - ?t\<bar> = 3 / 4 * \<bar>?x - ?t\<bar>" by (rule exact_contracts)
    have "\<bar>\<bar>?x' - ?t\<bar> - \<bar>(?x + (?t - ?x) / 4) - ?t\<bar>\<bar> \<le> \<bar>?x' - (?x + (?t - ?x) / 4)\<bar>"
      by (rule abs_diff_triangle)
    with e have s: "\<bar>\<bar>?x' - ?t\<bar> - 3 / 4 * \<bar>?x - ?t\<bar>\<bar> \<le> ?b" unfolding c by (rule order_trans[rotated])
    have q: "0.25 * (?t - ?x) = (?t - ?x) / 4" by simp
    have e': "\<bar>?x' - (?x + 0.25 * (?t - ?x))\<bar> \<le> ?b" unfolding q by (rule e)
    have s': "\<bar>\<bar>?x' - ?t\<bar> - 0.75 * \<bar>?x - ?t\<bar>\<bar> \<le> ?b" unfolding quarter by (rule s)
    show ?thesis
      by (intro conjI) (rule a, rule f[THEN conjunct1], rule f[THEN conjunct2, THEN conjunct1],
          rule e', rule s')
  qed
  have r: "reachable m \<longrightarrow> is_double ?x"
    by (rule impI) (rule reachable_car_double)
  have "\<not> game_over (sess m) \<and> is_double ?x \<longrightarrow>
      ?t = real_of_int (LANE_X ! hand_lane (seen_hand inp m) (seen_width inp m)) - real_of_int CAR_W / 2
      \<and> ?x' = round_double (?x + round_double (round_double (?t - ?x) * 0.25))
      \<and> (?x \<le> ?t \<longrightarrow> ?x \<le> ?x' \<and> ?x' \<le> ?t)
      \<and> (?t \<le> ?x \<longrightarrow> ?t \<le> ?x' \<and> ?x' \<le> ?x)
      \<and> \<bar>?x' - (?x + 0.25 * (?t - ?x))\<bar> \<le> ?b
      \<and> \<bar>\<bar>?x' - ?t\<bar> - 0.75 * \<bar>?x - ?t\<bar>\<bar> \<le> ?b"
  proof (rule impI)
    assume h: "\<not> game_over (sess m) \<and> is_double ?x"
    show "?t = real_of_int (LANE_X ! hand_lane (seen_hand inp m) (seen_width inp m)) - real_of_int CAR_W / 2
      \<and> ?x' = round_double (?x + round_double (round_double (?t - ?x) * 0.25))
      \<and> (?x \<le> ?t \<longrightarrow> ?x \<le> ?x' \<and> ?x' \<le> ?t)
      \<and> (?t \<le> ?x \<longrightarrow> ?t \<le> ?x' \<and> ?x' \<le> ?x)
      \<and> \<bar>?x' - (?x + 0.25 * (?t - ?x))\<bar> \<le> ?b
      \<and> \<bar>\<bar>?x' - ?t\<bar> - 0.75 * \<bar>?x - ?t\<bar>\<bar> \<le> ?b"
      using 1 main[OF h[THEN conjunct1] h[THEN conjunct2]] by (rule conjI)
  qed
  with r show ?thesis by (rule conjI)
qed

theorem car_slides_to_target_witness:
  "reachable (initial 640 (sconst 0))
   \<and> is_double (car_x_px (sess (initial 640 (sconst 0))))
   \<and> \<not> game_over (sess ex_cross) \<and> is_double (car_x_px (sess ex_cross))
   \<and> target_x ex_cam ex_cross = 160 \<and> car_x_px (sess ex_cross) = 373
   \<and> car_x_px (sess (step ex_cam ex_cross)) = 319.75
   \<and> target_x ex_cam ex_cross \<le> car_x_px (sess (step ex_cam ex_cross))
   \<and> car_x_px (sess (step ex_cam ex_cross)) \<le> car_x_px (sess ex_cross)"
proof -
  have r: "reachable (initial 640 (sconst 0))" by (rule reachable_initial)
  have g: "\<not> game_over (sess ex_cross)" by (simp add: ex_cross_def reset_state_def)
  have x: "car_x_px (sess ex_cross) = 373"
    by (simp add: ex_cross_def reset_state_def LANE_X_eval layout_defs)
  have "is_double (real_of_int 373)" by (rule is_double_int) simp
  then have d: "is_double (car_x_px (sess ex_cross))" unfolding x by simp
  have t: "target_x ex_cam ex_cross = 160"
    by (simp add: target_x_def seen_hand_def seen_width_def ex_cross_def ex_cam_def hand_lane_def
          LANE_X_eval layout_defs)
  have x': "car_x_px (sess (step ex_cam ex_cross)) = 319.75" unfolding ex_cross_step by simp
  have i: "is_double (car_x_px (sess (initial 640 (sconst 0))))"
    using car_slides_to_target[of "initial 640 (sconst 0)" ex_cam, THEN conjunct1] r by (rule mp)
  note u = car_slides_to_target[of ex_cross ex_cam, THEN conjunct2, THEN mp, OF conjI[OF g d]]
  have le: "target_x ex_cam ex_cross \<le> car_x_px (sess ex_cross)" unfolding t x by simp
  have b: "target_x ex_cam ex_cross \<le> car_x_px (sess (step ex_cam ex_cross))
      \<and> car_x_px (sess (step ex_cam ex_cross)) \<le> car_x_px (sess ex_cross)"
    using u[THEN conjunct2, THEN conjunct2, THEN conjunct2, THEN conjunct1] le by (rule mp)
  show ?thesis using r i g d t x x' b by (intro conjI) simp_all
qed

text \<open>
  Claim C7 as stated fails in double precision. With the hand in lane 0 from the start,
  the car is at \<open>160 + 2\<^sup>-\<^sup>4\<^sup>4\<close> after 124 passes; the next pass leaves it there, since the
  exact value \<open>160 + 3 \<sqdot> 2\<^sup>-\<^sup>4\<^sup>6\<close> lies halfway between two doubles and rounds back to
  \<open>160 + 2\<^sup>-\<^sup>4\<^sup>4\<close>. The distance to the target is not multiplied by 0.75, and the car never
  reaches the target.
\<close>

theorem car_stalls_counterexample:
  "\<not> game_over (sess ex_stall)
   \<and> car_x_px (sess ex_stall) = ((\<lambda>x. lerp x 160 (1 / 4)) ^^ 124) 373
   \<and> car_x_px (sess ex_stall) = 160 + 1 / 2 ^ 44
   \<and> target_x ex_cam ex_stall = 160
   \<and> car_x_px (sess (step ex_cam ex_stall)) = car_x_px (sess ex_stall)
   \<and> \<bar>car_x_px (sess (step ex_cam ex_stall)) - target_x ex_cam ex_stall\<bar>
        \<noteq> 0.75 * \<bar>car_x_px (sess ex_stall) - target_x ex_cam ex_stall\<bar>"
proof -
  have t: "target_x ex_cam ex_stall = 160"
    by (simp add: target_x_def seen_hand_def seen_width_def ex_stall_def ex_cam_def hand_lane_def
          LANE_X_eval layout_defs)
  have g: "\<not> game_over (sess ex_stall)" by (simp add: ex_stall_def reset_state_def)
  have x: "car_x_px (sess ex_stall) = 160 + 1 / 2 ^ 44" by (simp add: ex_stall_def)
  have x': "car_x_px (sess (step ex_cam ex_stall)) = 160 + 1 / 2 ^ 44"
    unfolding ex_stall_step by simp
  have n: "\<bar>(160 + 1 / 2 ^ 44) - 160\<bar> \<noteq> (0.75::real) * \<bar>(160 + 1 / 2 ^ 44) - 160\<bar>" by simp
  show ?thesis unfolding t x' x car_path_stalls using g n by (intro conjI) simp_all
qed

subsection \<open>Game over: what a pass leaves unchanged\<close>

text \<open>
  Claim C8, amended. In a pass taken while the game is over that does not restart the game
  (the cooldown is still positive, or no hand position is seen), enemies, score, lives,
  speed and spawn countdown are left unchanged, and every particle is updated and the
  expired ones are removed.
\<close>

theorem game_over_freezes:
  assumes "game_over (sess m)" and "\<not> restarts inp m"
  shows "enemies (sess (step inp m)) = enemies (sess m)
       \<and> score (sess (step inp m)) = score (sess m)
       \<and> lives (sess (step inp m)) = lives (sess m)
       \<and> enemy_spd (sess (step inp m)) = enemy_spd (sess m)
       \<and> spawn_cd (sess (step inp m)) = spawn_cd (sess m)
       \<and> game_over (sess (step inp m))
       \<and> particles (sess (step inp m)) = particles_step (particles (sess m))
       \<and> particles_step (particles (sess m)) =
           filter (\<lambda>p. 0 < p_life p) (map Particle_update (particles (sess m)))"
  using step_game_over(2)[OF assms] by (simp add: particles_step_def)

theorem game_over_freezes_witness:
  "game_over (sess (ex_over 0)) \<and> \<not> restarts \<lparr>ret2 = True, shape_w = 640, hand = None\<rparr> (ex_over 0)
   \<and> enemies (sess (step \<lparr>ret2 = True, shape_w = 640, hand = None\<rparr> (ex_over 0))) = [ex_enemy]
   \<and> score (sess (step \<lparr>ret2 = True, shape_w = 640, hand = None\<rparr> (ex_over 0))) = 8
   \<and> lives (sess (step \<lparr>ret2 = True, shape_w = 640, hand = None\<rparr> (ex_over 0))) = 0"
proof -
  have h: "game_over (sess (ex_over 0))"
    "\<not> restarts \<lparr>ret2 = True, shape_w = 640, hand = None\<rparr> (ex_over 0)"
    by (simp_all add: ex_over_def restarts_def seen_hand_def CAM_SKIP_def)
  from game_over_freezes[OF h] h show ?thesis by (simp add: ex_over_def)
qed

text \<open>
  Claim C8 as stated fails on the pass that restarts the game: it is taken while the game
  is over, and it replaces score, lives, enemies and speed by those of the fresh state.
\<close>

theorem game_over_restart_counterexample:
  "game_over (sess (ex_over 0))
   \<and> score (sess (step ex_cam (ex_over 0))) \<noteq> score (sess (ex_over 0))
   \<and> lives (sess (step ex_cam (ex_over 0))) \<noteq> lives (sess (ex_over 0))
   \<and> enemies (sess (step ex_cam (ex_over 0))) \<noteq> enemies (sess (ex_over 0))
   \<and> enemy_spd (sess (step ex_cam (ex_over 0))) \<noteq> enemy_spd (sess (ex_over 0))"
proof -
  have g: "game_over (sess (ex_over 0))" by (simp add: ex_over_def)
  have "restarts ex_cam (ex_over 0)"
    by (simp add: restarts_def seen_hand_def ex_over_def ex_cam_def CAM_SKIP_def)
  from step_game_over(1)[OF g this] g show ?thesis
    by (simp add: ex_over_def reset_state_def)
qed

subsection \<open>Particles\<close>

lemma step_particles:
  "\<exists>qs. particles (sess (step inp m)) = particles_step qs
      \<and> (if restarts inp m then qs = []
          else \<exists>added. qs = particles (sess m) @ added
                 \<and> (\<forall>p\<in>set added. p_life p = p_max_life p \<and> 25 \<le> p_life p \<and> p_life p \<le> 50))"
proof (cases "game_over (sess m)")
  case True
  show ?thesis
  proof (cases "restarts inp m")
    case r: True
    from step_game_over(1)[OF True r] have "particles (sess (step inp m)) = particles_step []"
      by (simp add: reset_state_def particles_step_def)
    with r show ?thesis by auto
  next
    case r: False
    from step_game_over(2)[OF True r]
    have "particles (sess (step inp m)) = particles_step (particles (sess m) @ [])" by simp
    with r show ?thesis by (intro exI[of _ "particles (sess m) @ []"]) auto
  qed
next
  case False
  then have nr: "\<not> restarts inp m" by (simp add: restarts_def)
  from False obtain sa sb gb kept sc gc where
    f: "particles sa = particles (sess m)"
    and sp: "spawn_enemies (sa, rng m) = (sb, gb)"
    and up: "update_enemies (Rect (py_int (car_x_px sa)) (car_y sa) CAR_W CAR_H) (enemies sb) (sb, gb)
       = (kept, sc, gc)"
    and st: "sess (step inp m) = sc\<lparr>enemies := kept, particles := particles_step (particles sc)\<rparr>"
    by (rule step_playing[where inp = inp]) blast
  have "particles sb = particles (sess m)" using spawn_enemies_effect(1)[OF sp] f by simp
  with update_enemies_particles[OF up] obtain added where
    "particles sc = particles (sess m) @ added"
    "\<forall>p\<in>set added. p_life p = p_max_life p \<and> 25 \<le> p_life p \<and> p_life p \<le> 50"
    by auto
  with st nr show ?thesis by (intro exI[of _ "particles sc"]) auto
qed

lemma reachable_particles:
  "reachable m \<Longrightarrow> \<forall>p\<in>set (particles (sess m)). in_flight p"
proof (induction rule: reachable.induct)
  case (reachable_initial w g)
  then show ?case by (simp add: initial_def reset_state_def)
next
  case (reachable_step m inp)
  from step_particles[of inp m] obtain qs where
    q: "particles (sess (step inp m)) = particles_step qs"
    and c: "if restarts inp m then qs = []
          else \<exists>added. qs = particles (sess m) @ added
                 \<and> (\<forall>p\<in>set added. p_life p = p_max_life p \<and> 25 \<le> p_life p \<and> p_life p \<le> 50)"
    by blast
  have pre: "\<forall>p\<in>set qs. p_life p \<le> p_max_life p \<and> p_max_life p \<le> 50"
  proof (cases "restarts inp m")
    case True
    with c show ?thesis by simp
  next
    case False
    with c obtain added where "qs = particles (sess m) @ added"
      "\<forall>p\<in>set added. p_life p = p_max_life p \<and> 25 \<le> p_life p \<and> p_life p \<le> 50" by auto
    with reachable_step.IH show ?thesis by (auto simp: in_flight_def)
  qed
  show ?case
  proof
    fix p assume "p \<in> set (particles (sess (step inp m)))"
    with q have "p \<in> set (particles_step qs)" by simp
    from particles_step_life[OF this] pre show "in_flight p"
      by (fastforce simp: in_flight_def)
  qed
qed

text \<open>
  Claim C9. \<^verbatim>\<open>explode\<close> consumes 200 raw draws and appends exactly 40 particles at the given
  point, each with life equal to its maximal life. The life of the \<open>k\<close>-th particle is the
  outcome of \<^verbatim>\<open>randint(25, 50)\<close> on the raw draw number \<open>5k + 3\<close>; it lies in \<open>[25, 50]\<close>, and
  every value of \<open>[25, 50]\<close> is the outcome of exactly \<open>N\<close> of the raw draws below \<open>26N\<close>, so
  the life is uniform on \<open>[25, 50]\<close> when the raw draws are uniform. The particle section of
  a pass decrements the life of every particle by 1 and removes those whose life is then
  \<open>\<le> 0\<close>; every pass runs it on the particles it holds (the old ones followed by those
  created in the pass, or none when the game restarts). After 50 runs the particles of one
  explosion are gone: the collection is what it would be without them. In a reachable
  state every particle has been updated at least once and fewer than 50 times.
\<close>

theorem explosion_expires:
  "(\<exists>new. explode ps x y pal g = (ps @ new, sdrop 200 g) \<and> length new = 40
       \<and> (\<forall>p\<in>set new. p_x p = real_of_int x \<and> p_y p = real_of_int y
             \<and> p_life p = p_max_life p \<and> 25 \<le> p_life p \<and> p_life p \<le> 50)
       \<and> (\<forall>k<40. p_life (new ! k) = fst (randint 25 50 (sdrop (5 * k + 3) g)))
       \<and> (\<forall>n\<ge>50. (particles_step ^^ n) (ps @ new) = (particles_step ^^ n) ps))
   \<and> (25 \<le> v \<and> v \<le> 50 \<longrightarrow> card {r. r < 26 * N \<and> fst (randint 25 50 (r ## h)) = v} = N)
   \<and> particles_step qs = map Particle_update (filter (\<lambda>p. 1 < p_life p) qs)
   \<and> p_life (Particle_update p) = p_life p - 1
   \<and> p_max_life (Particle_update p) = p_max_life p
   \<and> (\<exists>rs. particles (sess (step inp m)) = particles_step rs
         \<and> (if restarts inp m then rs = []
             else \<exists>added. rs = particles (sess m) @ added))
   \<and> (reachable m \<longrightarrow>
        (\<forall>p\<in>set (particles (sess m)).
            0 < p_life p \<and> p_life p < p_max_life p \<and> p_max_life p \<le> 50))"
proof -
  obtain new g' where ex: "explode ps x y pal g = (ps @ new, g')" and len: "length new = 40"
    and fr: "\<forall>p\<in>set new. fresh x y p"
    using explode_appends by blast
  from explode_draws[of ps x y pal g] obtain new' where
    ex': "explode ps x y pal g = (ps @ new', sdrop 200 g)"
    and dr: "\<forall>k<40. p_life (new' ! k) = fst (randint 25 50 (sdrop (5 * k + 3) g))"
    by blast
  from ex ex' have same: "new' = new" "g' = sdrop 200 g" by simp_all
  have gone: "\<forall>n\<ge>50. (particles_step ^^ n) (ps @ new) = (particles_step ^^ n) ps"
    using fresh_expire[OF fr] by (simp add: particles_funpow_append)
  have 1: "\<exists>new. explode ps x y pal g = (ps @ new, sdrop 200 g) \<and> length new = 40
       \<and> (\<forall>p\<in>set new. p_x p = real_of_int x \<and> p_y p = real_of_int y
             \<and> p_life p = p_max_life p \<and> 25 \<le> p_life p \<and> p_life p \<le> 50)
       \<and> (\<forall>k<40. p_life (new ! k) = fst (randint 25 50 (sdrop (5 * k + 3) g)))
       \<and> (\<forall>n\<ge>50. (particles_step ^^ n) (ps @ new) = (particles_step ^^ n) ps)"
    using ex len fr gone dr unfolding fresh_def same by blast
  have u: "25 \<le> v \<and> v \<le> 50 \<longrightarrow> card {r. r < 26 * N \<and> fst (randint 25 50 (r ## h)) = v} = N"
    using randint_uniform[of 25 50 v N h] by simp
  have 2: "particles_step qs = map Particle_update (filter (\<lambda>p. 1 < p_life p) qs)"
    by (induction qs) (simp_all add: particles_step_def Particle_update_def)
  have 3: "p_life (Particle_update p) = p_life p - 1" "p_max_life (Particle_update p) = p_max_life p"
    by (simp_all add: Particle_update_def)
  have 4: "\<exists>rs. particles (sess (step inp m)) = particles_step rs
         \<and> (if restarts inp m then rs = [] else \<exists>added. rs = particles (sess m) @ added)"
    using step_particles[of inp m] by (cases "restarts inp m") auto
  have 5: "reachable m \<longrightarrow>
        (\<forall>p\<in>set (particles (sess m)).
            0 < p_life p \<and> p_life p < p_max_life p \<and> p_max_life p \<le> 50)"
    using reachable_particles[of m] by (simp add: in_flight_def)
  from 1 u 2 3 4 5 show ?thesis by blast
qed

theorem explosion_expires_witness:
  "(\<exists>new. explode [] 399 453 ((255, 140, 0), (180, 80, 0)) ex_draws = (new, sdrop 200 ex_draws)
      \<and> length new = 40 \<and> p_life (new ! 0) = 28 \<and> p_life (new ! 1) = 33 \<and> p_life (new ! 39) = 41
      \<and> (particles_step ^^ 50) new = [])
   \<and> card {r. r < 26 * 2 \<and> fst (randint 25 50 (r ## ex_draws)) = 30} = 2
   \<and> p_life (Particle_update ex_particle) = 29
   \<and> reachable (ex_run 168)
   \<and> length (particles (sess (ex_run 168))) = 40
   \<and> list_all (\<lambda>p. 0 < p_life p \<and> p_life p < p_max_life p \<and> p_max_life p \<le> 50)
        (particles (sess (ex_run 168)))
   \<and> particles (sess (ex_run 218)) = []"
proof -
  note t = explosion_expires[where ps = "[]" and x = 399 and y = 453
      and pal = "((255, 140, 0), (180, 80, 0))" and g = ex_draws and v = 30 and N = 2 and h = ex_draws
      and qs = "[]" and p = ex_particle and inp = ex_idle and m = "ex_run 168"]
  from t obtain new where
    e: "explode [] 399 453 ((255, 140, 0), (180, 80, 0)) ex_draws = ([] @ new, sdrop 200 ex_draws)"
    and l: "length new = 40"
    and d: "\<forall>k<40. p_life (new ! k) = fst (randint 25 50 (sdrop (5 * k + 3) ex_draws))"
    and x: "\<forall>n\<ge>50. (particles_step ^^ n) ([] @ new) = (particles_step ^^ n) []"
    by blast
  have d0: "p_life (new ! 0) = 28" "p_life (new ! 1) = 33" "p_life (new ! 39) = 41"
    using d by (simp_all add: randint_def ex_draws_at)
  have g: "(particles_step ^^ 50) new = []" using x by (simp add: particles_funpow_Nil)
  have 1: "\<exists>new. explode [] 399 453 ((255, 140, 0), (180, 80, 0)) ex_draws = (new, sdrop 200 ex_draws)
      \<and> length new = 40 \<and> p_life (new ! 0) = 28 \<and> p_life (new ! 1) = 33 \<and> p_life (new ! 39) = 41
      \<and> (particles_step ^^ 50) new = []"
    using e l d0 g by auto
  from t have 2: "card {r. r < 26 * 2 \<and> fst (randint 25 50 (r ## ex_draws)) = 30} = 2" by simp
  from t have "p_life (Particle_update ex_particle) = p_life ex_particle - 1" by blast
  then have 3: "p_life (Particle_update ex_particle) = 29" by (simp add: ex_particle_def)
  have r: "reachable (ex_run 168)" by (rule reachable_ex_run)
  from t r have "\<forall>p\<in>set (particles (sess (ex_run 168))).
            0 < p_life p \<and> p_life p < p_max_life p \<and> p_max_life p \<le> 50" by blast
  then have 4: "list_all (\<lambda>p. 0 < p_life p \<and> p_life p < p_max_life p \<and> p_max_life p \<le> 50)
        (particles (sess (ex_run 168)))" by (simp add: list_all_iff)
  from ex_run_168 obtain n1 where n1: "length n1 = 40" "\<forall>p\<in>set n1. fresh 399 453 p"
    "particles (sess (ex_run 168)) = particles_step n1"
    by (auto simp: ex_state_def)
  have "\<forall>p\<in>set n1. 1 < p_life p" using n1(2) by (auto simp: fresh_def)
  from particles_step_length[OF this] n1 have 5: "length (particles (sess (ex_run 168))) = 40" by simp
  have 6: "particles (sess (ex_run 218)) = []" using ex_run_230(1) by (simp add: ex_state_def)
  from 1 2 3 r 4 5 6 show ?thesis by blast
qed

subsection \<open>Score\<close>

lemma step_account:
  assumes "\<not> game_over (sess m)"
  shows "int (length (enemies (sess m))) + (if spawns (sess m) then 1 else 0)
           = int (length (enemies (sess (step inp m))))
             + (score (sess (step inp m)) - score (sess m))
             + (lives (sess m) - lives (sess (step inp m)))
       \<and> score (sess m) \<le> score (sess (step inp m))
       \<and> lives (sess (step inp m)) \<le> lives (sess m)"
proof -
  from assms obtain sa sb gb kept sc gc where
    f: "score sa = score (sess m)" "lives sa = lives (sess m)" "enemies sa = enemies (sess m)"
       "spawn_cd sa = spawn_cd (sess m)"
    and sp: "spawn_enemies (sa, rng m) = (sb, gb)"
    and up: "update_enemies (Rect (py_int (car_x_px sa)) (car_y sa) CAR_W CAR_H) (enemies sb) (sb, gb)
       = (kept, sc, gc)"
    and st: "sess (step inp m) = sc\<lparr>enemies := kept, particles := particles_step (particles sc)\<rparr>"
    by (rule step_playing[where inp = inp]) blast
  have sw: "spawns sa = spawns (sess m)" using f by (simp add: spawns_def)
  have n: "int (length (enemies sb)) = int (length (enemies (sess m))) + (if spawns (sess m) then 1 else 0)"
    using spawn_enemies_effect(2,3)[OF sp] sw f(3) by (cases "spawns sa") auto
  have b: "score sb = score (sess m)" "lives sb = lives (sess m)"
    using spawn_enemies_effect(1)[OF sp] f by simp_all
  from update_enemies_account[OF up] n b st show ?thesis by simp
qed

text \<open>
  Claim C10. The score never decreases except when the game restarts. The loop body
  changes it for an enemy exactly when the enemy does not hit the car and is below the
  window, and then by 1. While the game is over (and does not restart) a pass leaves it
  unchanged. While the game runs, the enemies present after the spawn are accounted for:
  each is kept, or counted once in the score (it left the window), or once in the loss of
  lives (it hit the car).
\<close>

theorem score_only_grows:
  "(enemy_body car e (s, g) = ((e', rm), s', g') \<longrightarrow>
      score s' = (if \<not> hits car e s \<and> leaves e s then score s + 1 else score s))
   \<and> (\<not> restarts inp m \<longrightarrow> score (sess m) \<le> score (sess (step inp m)))
   \<and> (game_over (sess m) \<and> \<not> restarts inp m \<longrightarrow> score (sess (step inp m)) = score (sess m))
   \<and> (\<not> game_over (sess m) \<longrightarrow>
        int (length (enemies (sess m))) + (if spawns (sess m) then 1 else 0)
          = int (length (enemies (sess (step inp m))))
            + (score (sess (step inp m)) - score (sess m))
            + (lives (sess m) - lives (sess (step inp m)))
        \<and> lives (sess (step inp m)) \<le> lives (sess m))"
proof -
  have 1: "enemy_body car e (s, g) = ((e', rm), s', g') \<longrightarrow>
      score s' = (if \<not> hits car e s \<and> leaves e s then score s + 1 else score s)"
  proof
    assume "enemy_body car e (s, g) = ((e', rm), s', g')"
    then show "score s' = (if \<not> hits car e s \<and> leaves e s then score s + 1 else score s)"
      by (cases rule: enemy_body_cases) simp_all
  qed
  have 2: "\<not> restarts inp m \<longrightarrow> score (sess m) \<le> score (sess (step inp m))"
    using step_game_over(2)[of m inp] step_account[of m inp] by (cases "game_over (sess m)") auto
  have 3: "game_over (sess m) \<and> \<not> restarts inp m \<longrightarrow> score (sess (step inp m)) = score (sess m)"
    using step_game_over(2)[of m inp] by simp
  from 1 2 3 step_account[of m inp] show ?thesis by blast
qed

theorem score_only_grows_witness:
  "enemy_body (Rect 373 492 CAR_W CAR_H) \<lparr>e_cx = 399, e_y = 590, e_pal = ((220, 50, 50), (140, 20, 20))\<rparr>
       (sess ex_play, sconst 0)
     = ((\<lparr>e_cx = 399, e_y = 608, e_pal = ((220, 50, 50), (140, 20, 20))\<rparr>, True),
        (sess ex_play)\<lparr>score := 216\<rparr>, sconst 0)
   \<and> score ((sess ex_play)\<lparr>score := 216\<rparr>) = score (sess ex_play) + 1
   \<and> \<not> restarts ex_cam ex_play \<and> \<not> game_over (sess ex_play)
   \<and> score (sess ex_play) = 215 \<and> score (sess (step ex_cam ex_play)) = 216
   \<and> game_over (sess (ex_over 7)) \<and> \<not> restarts ex_cam (ex_over 7)
   \<and> score (sess (step ex_cam (ex_over 7))) = score (sess (ex_over 7))"
proof -
  have b: "enemy_body (Rect 373 492 CAR_W CAR_H) \<lparr>e_cx = 399, e_y = 590, e_pal = ((220, 50, 50), (140, 20, 20))\<rparr>
       (sess ex_play, sconst 0)
     = ((\<lparr>e_cx = 399, e_y = 608, e_pal = ((220, 50, 50), (140, 20, 20))\<rparr>, True),
        (sess ex_play)\<lparr>score := 216\<rparr>, sconst 0)"
    by (simp add: ex_play_def enemy_body_def Let_def colliderect_def Rect_def py_int_def
          reset_state_def layout_defs)
  have p: "\<not> restarts ex_cam ex_play" "\<not> game_over (sess ex_play)" "score (sess ex_play) = 215"
    by (simp_all add: restarts_def ex_play_def reset_state_def)
  have o: "game_over (sess (ex_over 7))" "\<not> restarts ex_cam (ex_over 7)"
    by (simp_all add: restarts_def ex_over_def)
  have s: "score (sess (step ex_cam ex_play)) = 216" by (simp add: ex_play_step)
  from score_only_grows[of "Rect 373 492 CAR_W CAR_H"
      "\<lparr>e_cx = 399, e_y = 590, e_pal = ((220, 50, 50), (140, 20, 20))\<rparr>" "sess ex_play" "sconst 0"
      "\<lparr>e_cx = 399, e_y = 608, e_pal = ((220, 50, 50), (140, 20, 20))\<rparr>" True
      "(sess ex_play)\<lparr>score := 216\<rparr>" "sconst 0" ex_cam "ex_over 7"] b o
  have "score (sess (step ex_cam (ex_over 7))) = score (sess (ex_over 7))" by blast
  with b p o s show ?thesis by simp
qed

end
